theory Spec2Isabelle
  imports Complex_Main "HOL-Library.AList"
begin

section \<open>Server-sent events broker: registry, dispatcher, service\<close>

text \<open>
  A shallow embedding of \<^verbatim>\<open>src/lib/sse/client-manager.ts\<close> (class SSEClientManager),
  \<^verbatim>\<open>src/lib/sse/event-dispatcher.ts\<close> (class SSEEventDispatcher) and
  \<^verbatim>\<open>src/lib/sse/sse-service.ts\<close> (class SSEService), with the types of
  \<^verbatim>\<open>src/types/sse.ts\<close>.

  Conventions. A string is a list of bytes (the UTF-8 text), so \<^verbatim>\<open>TextEncoder.encode\<close> is
  the identity. A JavaScript \<^verbatim>\<open>number\<close> that the code uses as a counter, a size or a
  millisecond timestamp is an \<^typ>\<open>int\<close>. A thrown exception is the \<open>Inl\<close> of a sum. Calls
  of the logger (\<^verbatim>\<open>this.context.log\<close>, \<^verbatim>\<open>this.context.handleError\<close>) only write to the log
  and are left out.
\<close>

subsection \<open>JavaScript Map and Set, in insertion order\<close>

text \<open>
  A \<^verbatim>\<open>Map<K, V>\<close> is an association list in insertion order: \<^verbatim>\<open>set\<close> on a present key
  replaces the value in place and on a new key appends the entry, \<^verbatim>\<open>delete\<close> drops the
  entry. A \<^verbatim>\<open>Set<string>\<close> is a list in insertion order.
\<close>

type_synonym ('k, 'v) js_map = "('k \<times> 'v) list"
type_synonym js_set = "string list"

definition map_get :: "('k, 'v) js_map \<Rightarrow> 'k \<Rightarrow> 'v option" where
  "map_get m k = map_of m k"

definition map_has :: "('k, 'v) js_map \<Rightarrow> 'k \<Rightarrow> bool" where
  "map_has m k = (map_of m k \<noteq> None)"

definition map_set :: "('k, 'v) js_map \<Rightarrow> 'k \<Rightarrow> 'v \<Rightarrow> ('k, 'v) js_map" where
  "map_set m k v = AList.update k v m"

definition map_delete :: "('k, 'v) js_map \<Rightarrow> 'k \<Rightarrow> ('k, 'v) js_map" where
  "map_delete m k = AList.delete k m"

definition set_add :: "js_set \<Rightarrow> string \<Rightarrow> js_set" where
  "set_add s x = (if x \<in> set s then s else s @ [x])"

definition set_delete :: "js_set \<Rightarrow> string \<Rightarrow> js_set" where
  "set_delete s x = removeAll x s"

text \<open>Truthiness of an optional string: \<^verbatim>\<open>undefined\<close> and the empty string are falsy.\<close>

fun truthy :: "string option \<Rightarrow> bool" where
  "truthy None = False"
| "truthy (Some s) = (s \<noteq> [])"

subsection \<open>Numbers and JSON text\<close>

text \<open>
  \<^verbatim>\<open>Number.prototype.toString\<close> on an integer of magnitude below \<open>10^21\<close>: the decimal
  digits, with a minus sign for a negative number.
\<close>

definition digit_char :: "nat \<Rightarrow> char" where
  "digit_char n = ''0123456789'' ! (n mod 10)"

fun show_nat :: "nat \<Rightarrow> string" where
  "show_nat n = (if n < 10 then [digit_char n] else show_nat (n div 10) @ [digit_char n])"

declare show_nat.simps [simp del]

definition show_int :: "int \<Rightarrow> string" where
  "show_int i = (if i < 0 then CHR ''-'' # show_nat (nat (- i)) else show_nat (nat i))"

text \<open>
  The values \<^verbatim>\<open>JSON.stringify\<close> is applied to: null, booleans, integers, strings, arrays
  and plain objects (an object is the list of its own enumerable properties in
  enumeration order).
\<close>

datatype json =
    JNull
  | JBool bool
  | JNumber int
  | JString string
  | JArray "json list"
  | JObject "(string \<times> json) list"

definition hex_char :: "nat \<Rightarrow> char" where
  "hex_char n = ''0123456789abcdef'' ! (n mod 16)"

text \<open>The escape of one character inside a JSON string (QuoteJSONString).\<close>

definition escape_char :: "char \<Rightarrow> string" where
  "escape_char c =
     (if c = CHR 0x08 then [CHR 0x5C, CHR ''b'']
      else if c = CHR 0x09 then [CHR 0x5C, CHR ''t'']
      else if c = CHR 0x0A then [CHR 0x5C, CHR ''n'']
      else if c = CHR 0x0C then [CHR 0x5C, CHR ''f'']
      else if c = CHR 0x0D then [CHR 0x5C, CHR ''r'']
      else if c = CHR 0x22 then [CHR 0x5C, CHR 0x22]
      else if c = CHR 0x5C then [CHR 0x5C, CHR 0x5C]
      else if of_char c < (32::nat)
        then [CHR 0x5C, CHR ''u'', CHR ''0'', CHR ''0'',
              hex_char (of_char c div 16), hex_char (of_char c)]
      else [c])"

definition quote :: "string \<Rightarrow> string" where
  "quote s = CHR 0x22 # concat (map escape_char s) @ [CHR 0x22]"

fun join :: "string \<Rightarrow> string list \<Rightarrow> string" where
  "join sep [] = []"
| "join sep [x] = x"
| "join sep (x # y # ys) = x @ sep @ join sep (y # ys)"

fun stringify :: "json \<Rightarrow> string" where
  "stringify JNull = ''null''"
| "stringify (JBool b) = (if b then ''true'' else ''false'')"
| "stringify (JNumber n) = show_int n"
| "stringify (JString s) = quote s"
| "stringify (JArray xs) = ''['' @ join '','' (map stringify xs) @ '']''"
| "stringify (JObject kvs) =
     ''{'' @ join '','' (map (\<lambda>kv. quote (fst kv) @ '':'' @ stringify (snd kv)) kvs) @ ''}''"

subsection \<open>Types of \<^verbatim>\<open>src/types/sse.ts\<close>\<close>

text \<open>
  \<^verbatim>\<open>SSEEvent.data\<close> has type \<^verbatim>\<open>unknown\<close>: a string, a JSON value, or \<^verbatim>\<open>undefined\<close> (for
  which \<^verbatim>\<open>JSON.stringify\<close> returns \<^verbatim>\<open>undefined\<close>, not a string).
\<close>

datatype payload = Text string | Structured json | Undefined

record SSEEvent =
  event_type :: string
  event_data :: payload
  event_id :: "string option"
  event_retry :: "int option"

record SSEMessage =
  msg_event :: "string option"
  msg_data :: "string option"
  msg_id :: "string option"
  msg_retry :: "int option"

datatype error = Error string | TypeError string

subsection \<open>The dispatcher: \<^verbatim>\<open>formatSSEMessage\<close>\<close>

definition newline :: char where
  "newline = CHR 0x0A"

text \<open>
  \<^verbatim>\<open>String.prototype.split("\n")\<close>: the pieces between line feeds. The result is never
  the empty list, so the first branch of the \<open>case\<close> is never taken.
\<close>

fun split_nl :: "string \<Rightarrow> string list" where
  "split_nl [] = [[]]"
| "split_nl (c # cs) =
     (if c = newline then [] # split_nl cs
      else (case split_nl cs of
              [] \<Rightarrow> [[c]]
            | l # ls \<Rightarrow> (c # l) # ls))"

text \<open>
  \<^verbatim>\<open>typeof event.data === "string" ? event.data : JSON.stringify(event.data)\<close>;
  \<open>None\<close> is \<^verbatim>\<open>undefined\<close>.
\<close>

fun serialize :: "payload \<Rightarrow> string option" where
  "serialize (Text s) = Some s"
| "serialize (Structured j) = Some (stringify j)"
| "serialize Undefined = None"

text \<open>Truthiness of an optional number: \<^verbatim>\<open>undefined\<close> and \<open>0\<close> are falsy.\<close>

fun truthy_num :: "int option \<Rightarrow> bool" where
  "truthy_num None = False"
| "truthy_num (Some n) = (n \<noteq> 0)"

definition formatSSEMessage :: "SSEEvent \<Rightarrow> error + string" where
  "formatSSEMessage event =
     (let message = \<lparr> msg_event = Some (event_type event),
                      msg_data = serialize (event_data event),
                      msg_id = None, msg_retry = None \<rparr>;
          message = (if truthy (event_id event)
                     then message\<lparr> msg_id := event_id event \<rparr> else message);
          message = (if truthy_num (event_retry event)
                     then message\<lparr> msg_retry := event_retry event \<rparr> else message);
          formatted = [];
          formatted = (if truthy (msg_event message)
                       then formatted @ ''event: '' @ the (msg_event message) @ [newline]
                       else formatted);
          formatted = (if truthy (msg_id message)
                       then formatted @ ''id: '' @ the (msg_id message) @ [newline]
                       else formatted);
          formatted = (if truthy_num (msg_retry message)
                       then formatted @ ''retry: '' @ show_int (the (msg_retry message)) @ [newline]
                       else formatted)
      in case msg_data message of
           None \<Rightarrow> Inl (TypeError ''Cannot read properties of undefined (reading 'split')'')
         | Some text \<Rightarrow>
             (let dataLines = split_nl text;
                  formatted = fold (\<lambda>line acc. acc @ ''data: '' @ line @ [newline])
                                dataLines formatted
              in Inr (formatted @ [newline])))"

subsection \<open>The sink: \<^verbatim>\<open>ReadableStreamDefaultController\<close>\<close>

text \<open>
  A client holds a reference to the controller of its stream. The controllers live in a
  store, addressed by number. \<open>ctrl_open\<close> says that the controller can still close or
  enqueue (no close was requested and the stream is readable); \<^verbatim>\<open>enqueue\<close> and \<^verbatim>\<open>close\<close>
  throw a \<^verbatim>\<open>TypeError\<close> otherwise. \<open>ctrl_chunks\<close> are the chunks enqueued so far.
\<close>

record controller =
  ctrl_open :: bool
  ctrl_chunks :: "string list"

type_synonym store = "nat \<Rightarrow> controller"

definition enqueue :: "nat \<Rightarrow> string \<Rightarrow> store \<Rightarrow> error + store" where
  "enqueue c chunk \<sigma> =
     (if ctrl_open (\<sigma> c)
      then Inr (\<sigma>(c := (\<sigma> c)\<lparr> ctrl_chunks := ctrl_chunks (\<sigma> c) @ [chunk] \<rparr>))
      else Inl (TypeError ''Invalid state: Controller is already closed''))"

definition close :: "nat \<Rightarrow> store \<Rightarrow> error + store" where
  "close c \<sigma> =
     (if ctrl_open (\<sigma> c)
      then Inr (\<sigma>(c := (\<sigma> c)\<lparr> ctrl_open := False \<rparr>))
      else Inl (TypeError ''Invalid state: Controller is already closed''))"

subsection \<open>Clients, filters, configuration, metrics\<close>

text \<open>
  \<^verbatim>\<open>SSEClient\<close>; the dates are milliseconds since the epoch. The field \<^verbatim>\<open>response\<close> is
  never read by the code modelled here and is left out.
\<close>

record SSEClient =
  client_id :: string
  client_userId :: "string option"
  client_sessionId :: "string option"
  client_controller :: nat
  client_connectedAt :: int
  client_lastPing :: "int option"

record ClientFilter =
  filter_userId :: "string option"
  filter_sessionId :: "string option"
  filter_clientIds :: "string list option"

record SSEServiceConfig =
  heartbeatInterval :: int
  clientTimeoutMs :: int
  maxClients :: int

record Metrics =
  totalConnections :: int
  eventsDispatched :: int
  errors :: int

record SSEMetrics =
  m_activeConnections :: int
  m_totalConnections :: int
  m_eventsDispatched :: int
  m_errors :: int

subsection \<open>The registry: class \<^verbatim>\<open>SSEClientManager\<close>\<close>

record SSEClientManager =
  clients :: "(string, SSEClient) js_map"
  userClientMap :: "(string, js_set) js_map"
  sessionClientMap :: "(string, js_set) js_map"
  metrics :: Metrics
  config :: SSEServiceConfig

definition new_SSEClientManager :: "SSEServiceConfig \<Rightarrow> SSEClientManager" where
  "new_SSEClientManager cfg =
     \<lparr> clients = [], userClientMap = [], sessionClientMap = [],
       metrics = \<lparr> totalConnections = 0, eventsDispatched = 0, errors = 0 \<rparr>,
       config = cfg \<rparr>"

text \<open>
  The body of \<^verbatim>\<open>if (client.userId) { ... }\<close> in \<^verbatim>\<open>addClient\<close> (and the same for the
  session): create the member set when the key is new, then add the id to the set
  stored under the key. After the first step the key is present, so the \<open>None\<close> branch
  (where \<^verbatim>\<open>get(key)!\<close> would be \<^verbatim>\<open>undefined\<close>) is never taken.
\<close>

definition index_add :: "(string, js_set) js_map \<Rightarrow> string \<Rightarrow> string \<Rightarrow> (string, js_set) js_map" where
  "index_add idx key cid =
     (let idx = (if \<not> map_has idx key then map_set idx key [] else idx)
      in case map_get idx key of
           None \<Rightarrow> idx
         | Some members \<Rightarrow> map_set idx key (set_add members cid))"

definition capacity_error :: "int \<Rightarrow> error" where
  "capacity_error n = Error (''Maximum client limit reached: '' @ show_int n)"

definition addClient :: "SSEClient \<Rightarrow> SSEClientManager \<Rightarrow> (error + unit) \<times> SSEClientManager" where
  "addClient client m =
     (if int (length (clients m)) \<ge> maxClients (config m)
      then (Inl (capacity_error (maxClients (config m))), m)
      else
        let m = m\<lparr> clients := map_set (clients m) (client_id client) client \<rparr>;
            m = m\<lparr> metrics := (metrics m)\<lparr> totalConnections := totalConnections (metrics m) + 1 \<rparr> \<rparr>;
            m = (case client_userId client of
                   None \<Rightarrow> m
                 | Some uid \<Rightarrow>
                     if uid \<noteq> []
                     then m\<lparr> userClientMap := index_add (userClientMap m) uid (client_id client) \<rparr>
                     else m);
            m = (case client_sessionId client of
                   None \<Rightarrow> m
                 | Some sid \<Rightarrow>
                     if sid \<noteq> []
                     then m\<lparr> sessionClientMap := index_add (sessionClientMap m) sid (client_id client) \<rparr>
                     else m)
        in (Inr (), m))"

text \<open>
  The body of \<^verbatim>\<open>if (client.userId) { ... }\<close> in \<^verbatim>\<open>removeClient\<close>: delete the id from the
  member set stored under the key (the set object is changed in place), and delete the
  key when the set has become empty.
\<close>

definition index_remove :: "(string, js_set) js_map \<Rightarrow> string \<Rightarrow> string \<Rightarrow> (string, js_set) js_map" where
  "index_remove idx key cid =
     (case map_get idx key of
        None \<Rightarrow> idx
      | Some members \<Rightarrow>
          (let members = set_delete members cid;
               idx = map_set idx key members
           in if length members = 0 then map_delete idx key else idx))"

fun removeClient :: "string \<Rightarrow> SSEClientManager \<times> store \<Rightarrow> bool \<times> SSEClientManager \<times> store" where
  "removeClient clientId (m, \<sigma>) =
     (case map_get (clients m) clientId of
        None \<Rightarrow> (False, m, \<sigma>)
      | Some client \<Rightarrow>
          (let m = m\<lparr> clients := map_delete (clients m) clientId \<rparr>;
               m = (case client_userId client of
                      None \<Rightarrow> m
                    | Some uid \<Rightarrow>
                        if uid \<noteq> []
                        then m\<lparr> userClientMap := index_remove (userClientMap m) uid clientId \<rparr>
                        else m);
               m = (case client_sessionId client of
                      None \<Rightarrow> m
                    | Some sid \<Rightarrow>
                        if sid \<noteq> []
                        then m\<lparr> sessionClientMap := index_remove (sessionClientMap m) sid clientId \<rparr>
                        else m);
               \<sigma> = (case close (client_controller client) \<sigma> of
                      Inl err \<Rightarrow> \<sigma>
                    | Inr \<sigma>' \<Rightarrow> \<sigma>')
           in (True, m, \<sigma>)))"

declare removeClient.simps [simp del]

definition getClient :: "SSEClientManager \<Rightarrow> string \<Rightarrow> SSEClient option" where
  "getClient m clientId = map_get (clients m) clientId"

text \<open>
  The loop \<^verbatim>\<open>for (const clientId of ids) { const client = this.clients.get(clientId);
  if (client) clients.push(client) }\<close>, shared by the three branches of
  \<^verbatim>\<open>getClientsByFilter\<close>.
\<close>

definition push_found :: "SSEClientManager \<Rightarrow> string list \<Rightarrow> SSEClient list \<Rightarrow> SSEClient list" where
  "push_found m ids acc =
     fold (\<lambda>clientId acc. case map_get (clients m) clientId of
                             None \<Rightarrow> acc
                           | Some client \<Rightarrow> acc @ [client]) ids acc"

definition getClientsByFilter :: "SSEClientManager \<Rightarrow> ClientFilter \<Rightarrow> SSEClient list" where
  "getClientsByFilter m flt =
     (case filter_clientIds flt of
        Some ids \<Rightarrow> push_found m ids []
      | None \<Rightarrow>
          (let cs = [];
               cs = (case filter_userId flt of
                       None \<Rightarrow> cs
                     | Some uid \<Rightarrow>
                         if uid \<noteq> []
                         then (case map_get (userClientMap m) uid of
                                 None \<Rightarrow> cs
                               | Some userClientIds \<Rightarrow> push_found m userClientIds cs)
                         else cs);
               cs = (case filter_sessionId flt of
                       None \<Rightarrow> cs
                     | Some sid \<Rightarrow>
                         if sid \<noteq> []
                         then (case map_get (sessionClientMap m) sid of
                                 None \<Rightarrow> cs
                               | Some sessionClientIds \<Rightarrow> push_found m sessionClientIds cs)
                         else cs)
           in cs))"

definition getAllClients :: "SSEClientManager \<Rightarrow> SSEClient list" where
  "getAllClients m = map snd (clients m)"

definition getClientCount :: "SSEClientManager \<Rightarrow> int" where
  "getClientCount m = int (length (clients m))"

definition getMetrics :: "SSEClientManager \<Rightarrow> SSEMetrics" where
  "getMetrics m =
     \<lparr> m_activeConnections = int (length (clients m)),
       m_totalConnections = totalConnections (metrics m),
       m_eventsDispatched = eventsDispatched (metrics m),
       m_errors = errors (metrics m) \<rparr>"

definition incrementEventsDispatched :: "SSEClientManager \<Rightarrow> SSEClientManager" where
  "incrementEventsDispatched m =
     m\<lparr> metrics := (metrics m)\<lparr> eventsDispatched := eventsDispatched (metrics m) + 1 \<rparr> \<rparr>"

definition incrementErrors :: "SSEClientManager \<Rightarrow> SSEClientManager" where
  "incrementErrors m = m\<lparr> metrics := (metrics m)\<lparr> errors := errors (metrics m) + 1 \<rparr> \<rparr>"

text \<open>\<^verbatim>\<open>for (const clientId of ids) this.removeClient(clientId)\<close>, the result dropped.\<close>

definition remove_each :: "string list \<Rightarrow> SSEClientManager \<times> store \<Rightarrow> SSEClientManager \<times> store" where
  "remove_each ids s = fold (\<lambda>clientId s. snd (removeClient clientId s)) ids s"

definition cleanup :: "SSEClientManager \<times> store \<Rightarrow> SSEClientManager \<times> store" where
  "cleanup s =
     (let clientIds = map fst (clients (fst s))
      in remove_each clientIds s)"

text \<open>\<^verbatim>\<open>removeStaleClients\<close>; the value of \<^verbatim>\<open>new Date()\<close> is the parameter \<open>now\<close>.\<close>

definition removeStaleClients :: "int \<Rightarrow> SSEClientManager \<times> store \<Rightarrow> int \<times> SSEClientManager \<times> store" where
  "removeStaleClients now s =
     (let staleClients =
            fold (\<lambda>(clientId, client) stale.
                    let timeSinceLastPing =
                          (case client_lastPing client of
                             Some lastPing \<Rightarrow> now - lastPing
                           | None \<Rightarrow> now - client_connectedAt client)
                    in if timeSinceLastPing > clientTimeoutMs (config (fst s))
                       then stale @ [clientId] else stale)
                 (clients (fst s)) [];
          s = remove_each staleClients s
      in (int (length staleClients), s))"

subsection \<open>The dispatcher: sending\<close>

text \<open>
  \<^verbatim>\<open>sendEventToClient\<close>: the \<^verbatim>\<open>try\<close> block formats the event and enqueues the bytes; an
  exception of either step is caught and the result is \<^verbatim>\<open>false\<close>.
\<close>

definition sendEventToClient :: "SSEClient \<Rightarrow> SSEEvent \<Rightarrow> store \<Rightarrow> bool \<times> store" where
  "sendEventToClient client event \<sigma> =
     (case formatSSEMessage event of
        Inl err \<Rightarrow> (False, \<sigma>)
      | Inr message \<Rightarrow>
          (let data = message
           in case enqueue (client_controller client) data \<sigma> of
                Inl err \<Rightarrow> (False, \<sigma>)
              | Inr \<sigma>' \<Rightarrow> (True, \<sigma>')))"

text \<open>
  \<^verbatim>\<open>clients.map((client) => this.sendEventToClient(client, event))\<close>: the async function
  has no \<^verbatim>\<open>await\<close>, so each call runs to its end before the next one starts, in the order
  of the list, and every promise is already fulfilled with its boolean.
\<close>

fun send_each :: "SSEClient list \<Rightarrow> SSEEvent \<Rightarrow> store \<Rightarrow> bool list \<times> store" where
  "send_each [] event \<sigma> = ([], \<sigma>)"
| "send_each (client # rest) event \<sigma> =
     (let (r, \<sigma>) = sendEventToClient client event \<sigma>;
          (rs, \<sigma>) = send_each rest event \<sigma>
      in (r # rs, \<sigma>))"

definition sendEventToClients :: "SSEClient list \<Rightarrow> SSEEvent \<Rightarrow> store \<Rightarrow> int \<times> store" where
  "sendEventToClients cs event \<sigma> =
     (let (results, \<sigma>) = send_each cs event \<sigma>;
          successCount = int (length (filter (\<lambda>result. result = True) results))
      in (successCount, \<sigma>))"

subsection \<open>The service: class \<^verbatim>\<open>SSEService\<close>\<close>

text \<open>
  The timers of the runtime: \<^verbatim>\<open>setInterval\<close> registers a task with its period under a new
  handle, \<^verbatim>\<open>clearInterval\<close> drops the handle. The two tasks are the callbacks of
  \<^verbatim>\<open>startHeartbeat\<close> and \<^verbatim>\<open>startCleanup\<close>.
\<close>

datatype timer_task = HeartbeatTask | CleanupTask

type_synonym timers = "(nat \<times> timer_task \<times> rat) list"

definition setInterval :: "timer_task \<Rightarrow> rat \<Rightarrow> timers \<Rightarrow> nat \<times> timers" where
  "setInterval task period ts =
     (let h = Suc (fold max (map fst ts) 0)
      in (h, ts @ [(h, task, period)]))"

definition clearInterval :: "nat \<Rightarrow> timers \<Rightarrow> timers" where
  "clearInterval h ts = filter (\<lambda>t. fst t \<noteq> h) ts"

record SSEService =
  clientManager :: SSEClientManager
  svc_heartbeatInterval :: "nat option"
  svc_cleanupInterval :: "nat option"
  svc_config :: SSEServiceConfig

definition startHeartbeat :: "SSEService \<times> timers \<Rightarrow> SSEService \<times> timers" where
  "startHeartbeat st =
     (case st of (svc, ts) \<Rightarrow>
        let (h, ts) = setInterval HeartbeatTask (of_int (heartbeatInterval (svc_config svc))) ts
        in (svc\<lparr> svc_heartbeatInterval := Some h \<rparr>, ts))"

definition startCleanup :: "SSEService \<times> timers \<Rightarrow> SSEService \<times> timers" where
  "startCleanup st =
     (case st of (svc, ts) \<Rightarrow>
        let (h, ts) = setInterval CleanupTask (of_int (clientTimeoutMs (svc_config svc)) / 2) ts
        in (svc\<lparr> svc_cleanupInterval := Some h \<rparr>, ts))"

definition new_SSEService :: "SSEServiceConfig \<Rightarrow> timers \<Rightarrow> SSEService \<times> timers" where
  "new_SSEService cfg ts =
     (let svc = \<lparr> clientManager = new_SSEClientManager cfg,
                  svc_heartbeatInterval = None, svc_cleanupInterval = None,
                  svc_config = cfg \<rparr>
      in startCleanup (startHeartbeat (svc, ts)))"

text \<open>
  \<^verbatim>\<open>sendEvent\<close>. The service calls its dispatcher's \<^verbatim>\<open>sendEventToClients\<close> inside a
  \<^verbatim>\<open>try\<close>; the fan-out is the parameter \<open>fanout\<close>, which returns the count or the
  exception it throws, so that the \<^verbatim>\<open>catch\<close> branch is a branch of the model.
\<close>

type_synonym fanout = "SSEClient list \<Rightarrow> SSEEvent \<Rightarrow> store \<Rightarrow> (error + int) \<times> store"

definition sendEvent_with ::
  "fanout \<Rightarrow> SSEEvent \<Rightarrow> ClientFilter option \<Rightarrow> SSEService \<times> store
     \<Rightarrow> (error + int) \<times> SSEService \<times> store" where
  "sendEvent_with fanout event flt st =
     (case st of (svc, \<sigma>) \<Rightarrow>
        let cs = (case flt of
                    Some f \<Rightarrow> getClientsByFilter (clientManager svc) f
                  | None \<Rightarrow> getAllClients (clientManager svc))
        in if length cs = 0 then (Inr 0, svc, \<sigma>)
           else (case fanout cs event \<sigma> of
                   (Inr successCount, \<sigma>') \<Rightarrow>
                     (Inr successCount,
                      svc\<lparr> clientManager := incrementEventsDispatched (clientManager svc) \<rparr>, \<sigma>')
                 | (Inl err, \<sigma>') \<Rightarrow>
                     (Inl err,
                      svc\<lparr> clientManager := incrementErrors (clientManager svc) \<rparr>, \<sigma>')))"

text \<open>The dispatcher the service is built with: \<^verbatim>\<open>new SSEEventDispatcher()\<close>.\<close>

definition dispatcher_fanout :: fanout where
  "dispatcher_fanout cs event \<sigma> =
     (let (successCount, \<sigma>) = sendEventToClients cs event \<sigma> in (Inr successCount, \<sigma>))"

definition sendEvent ::
  "SSEEvent \<Rightarrow> ClientFilter option \<Rightarrow> SSEService \<times> store \<Rightarrow> (error + int) \<times> SSEService \<times> store" where
  "sendEvent = sendEvent_with dispatcher_fanout"

definition broadcast :: "SSEEvent \<Rightarrow> SSEService \<times> store \<Rightarrow> (error + int) \<times> SSEService \<times> store" where
  "broadcast event st = sendEvent event None st"

definition svc_getMetrics :: "SSEService \<Rightarrow> SSEMetrics" where
  "svc_getMetrics svc = getMetrics (clientManager svc)"

definition shutdown :: "SSEService \<times> store \<times> timers \<Rightarrow> SSEService \<times> store \<times> timers" where
  "shutdown st =
     (case st of (svc, \<sigma>, ts) \<Rightarrow>
        let (svc, ts) = (case svc_heartbeatInterval svc of
                           Some h \<Rightarrow> (svc\<lparr> svc_heartbeatInterval := None \<rparr>, clearInterval h ts)
                         | None \<Rightarrow> (svc, ts));
            (svc, ts) = (case svc_cleanupInterval svc of
                           Some h \<Rightarrow> (svc\<lparr> svc_cleanupInterval := None \<rparr>, clearInterval h ts)
                         | None \<Rightarrow> (svc, ts));
            (m, \<sigma>) = cleanup (clientManager svc, \<sigma>)
        in (svc\<lparr> clientManager := m \<rparr>, \<sigma>, ts))"

definition reset :: "SSEService \<times> store \<times> timers \<Rightarrow> SSEService \<times> store \<times> timers" where
  "reset st =
     (case st of (svc, \<sigma>, ts) \<Rightarrow>
        let (m, \<sigma>) = cleanup (clientManager svc, \<sigma>);
            svc = svc\<lparr> clientManager := m \<rparr>;
            (svc, ts) = startHeartbeat (svc, ts);
            (svc, ts) = startCleanup (svc, ts)
        in (svc, \<sigma>, ts))"

subsection \<open>Words of the specification\<close>

text \<open>The double quote, for writing the expected wire text.\<close>

definition dq :: string where
  "dq = [CHR 0x22]"

text \<open>
  The lines of a wire message as the specification lists them: the \<^verbatim>\<open>event:\<close> line, the
  \<^verbatim>\<open>id:\<close> line, the \<^verbatim>\<open>retry:\<close> line, and one \<^verbatim>\<open>data:\<close> line for each line of the
  serialized payload.
\<close>

definition event_line :: "SSEEvent \<Rightarrow> string" where
  "event_line e = (if event_type e \<noteq> [] then ''event: '' @ event_type e @ [newline] else [])"

definition id_line :: "SSEEvent \<Rightarrow> string" where
  "id_line e =
     (case event_id e of
        None \<Rightarrow> []
      | Some i \<Rightarrow> if i \<noteq> [] then ''id: '' @ i @ [newline] else [])"

definition retry_line :: "SSEEvent \<Rightarrow> string" where
  "retry_line e =
     (case event_retry e of
        None \<Rightarrow> []
      | Some r \<Rightarrow> if r \<noteq> 0 then ''retry: '' @ show_int r @ [newline] else [])"

definition data_line :: "string \<Rightarrow> string" where
  "data_line l = ''data: '' @ l @ [newline]"

text \<open>
  An operation on the registry, and a run of operations. A failed \<^verbatim>\<open>addClient\<close> throws and
  the run goes on from the state the call left.
\<close>

datatype registry_op = AddClient SSEClient | RemoveClient string

fun apply_op :: "registry_op \<Rightarrow> SSEClientManager \<times> store \<Rightarrow> SSEClientManager \<times> store" where
  "apply_op (AddClient client) (m, \<sigma>) = (snd (addClient client m), \<sigma>)"
| "apply_op (RemoveClient clientId) (m, \<sigma>) = snd (removeClient clientId (m, \<sigma>))"

definition run :: "registry_op list \<Rightarrow> SSEClientManager \<times> store \<Rightarrow> SSEClientManager \<times> store" where
  "run ops s = fold apply_op ops s"

text \<open>
  Every handle is added under an id that is not registered at that moment (the ids that
  \<^verbatim>\<open>SSEService.createClient\<close> generates are unique in the process).
\<close>

fun fresh_ids :: "registry_op list \<Rightarrow> SSEClientManager \<times> store \<Rightarrow> bool" where
  "fresh_ids [] s = True"
| "fresh_ids (AddClient client # ops) s =
     (map_get (clients (fst s)) (client_id client) = None
      \<and> fresh_ids ops (apply_op (AddClient client) s))"
| "fresh_ids (RemoveClient clientId # ops) s = fresh_ids ops (apply_op (RemoveClient clientId) s)"

text \<open>
  The ids of the registered handles whose field (\<^verbatim>\<open>userId\<close> or \<^verbatim>\<open>sessionId\<close>) is the
  given key.
\<close>

definition ids_where ::
  "(SSEClient \<Rightarrow> string option) \<Rightarrow> string \<Rightarrow> (string, SSEClient) js_map \<Rightarrow> string list" where
  "ids_where field key cl = map fst (filter (\<lambda>entry. field (snd entry) = Some key) cl)"

text \<open>
  An index is exact: every entry has a key that is not empty and a member set that is
  not empty and holds exactly the ids of the registered handles with that key (no
  orphans); and every registered handle whose field is set and not empty is a member of
  the entry under its key (no omissions).
\<close>

definition index_exact ::
  "(SSEClient \<Rightarrow> string option) \<Rightarrow> (string, js_set) js_map \<Rightarrow> (string, SSEClient) js_map \<Rightarrow> bool" where
  "index_exact field idx cl =
     (list_all (\<lambda>entry. fst entry \<noteq> [] \<and> snd entry \<noteq> []
                  \<and> set (snd entry) = set (ids_where field (fst entry) cl)) idx
      \<and> list_all (\<lambda>entry. case field (snd entry) of
                    None \<Rightarrow> True
                  | Some key \<Rightarrow>
                      key = [] \<or> (case map_of idx key of
                                   None \<Rightarrow> False
                                 | Some members \<Rightarrow> fst entry \<in> set members)) cl)"

definition indexes_exact :: "SSEClientManager \<Rightarrow> bool" where
  "indexes_exact m =
     (index_exact client_userId (userClientMap m) (clients m)
      \<and> index_exact client_sessionId (sessionClientMap m) (clients m))"

text \<open>
  The representation of a registry state: the keys of each map are distinct (a Map has
  one entry for a key), each handle is stored under its own id, and each index maps a
  key to the ids of the registered handles with that key, with no empty member set.
\<close>

definition members_of :: "(string, js_set) js_map \<Rightarrow> string \<Rightarrow> string set" where
  "members_of idx key = (case map_of idx key of None \<Rightarrow> {} | Some members \<Rightarrow> set members)"

definition index_inv ::
  "(SSEClient \<Rightarrow> string option) \<Rightarrow> (string, js_set) js_map \<Rightarrow> (string, SSEClient) js_map \<Rightarrow> bool" where
  "index_inv field idx cl =
     (distinct (map fst idx)
      \<and> (\<forall>key. members_of idx key
                 = {cid. \<exists>c. map_of cl cid = Some c \<and> field c = Some key \<and> key \<noteq> []})
      \<and> (\<forall>key. map_of idx key \<noteq> Some []))"

definition registry_inv :: "SSEClientManager \<Rightarrow> bool" where
  "registry_inv m =
     (distinct (map fst (clients m))
      \<and> index_inv client_userId (userClientMap m) (clients m)
      \<and> index_inv client_sessionId (sessionClientMap m) (clients m))"

text \<open>
  The idle time of a handle at the time \<open>now\<close>, in the words of the specification:
  \<open>now - lastPing\<close> when \<open>lastPing\<close> is set, \<open>now - connectedAt\<close> otherwise.
\<close>

definition idle_time :: "int \<Rightarrow> SSEClient \<Rightarrow> int" where
  "idle_time now c =
     (case client_lastPing c of
        None \<Rightarrow> now - client_connectedAt c
      | Some lastPing \<Rightarrow> now - lastPing)"

text \<open>A store in which every controller is open and nothing has been written.\<close>

definition all_open :: store where
  "all_open = (\<lambda>c. \<lparr> ctrl_open = True, ctrl_chunks = [] \<rparr>)"

subsection \<open>The convenience layer: \<^verbatim>\<open>sseUtils\<close>\<close>

record NotificationOptions =
  opt_userId :: "string option"
  opt_sessionId :: "string option"
  opt_clientIds :: "string list option"

text \<open>
  \<^verbatim>\<open>sseUtils.sendCustomEvent\<close>; \<open>now\<close> is the value of \<^verbatim>\<open>Date.now()\<close>. The filter object is
  always built, with the three fields copied from the options (the default options are
  the empty object, all fields unset).
\<close>

definition default_options :: NotificationOptions where
  "default_options = \<lparr> opt_userId = None, opt_sessionId = None, opt_clientIds = None \<rparr>"

definition sendCustomEvent ::
  "int \<Rightarrow> string \<Rightarrow> payload \<Rightarrow> NotificationOptions \<Rightarrow> SSEService \<times> store
     \<Rightarrow> (error + int) \<times> SSEService \<times> store" where
  "sendCustomEvent now eventType d options st =
     (let event = \<lparr> event_type = eventType, event_data = d,
                    event_id = Some (eventType @ ''-'' @ show_int now), event_retry = None \<rparr>;
          flt = \<lparr> filter_userId = opt_userId options,
                  filter_sessionId = opt_sessionId options,
                  filter_clientIds = opt_clientIds options \<rparr>
      in sendEvent event (Some flt) st)"

subsection \<open>Example values\<close>

definition cfg_two :: SSEServiceConfig where
  "cfg_two = \<lparr> heartbeatInterval = 30000, clientTimeoutMs = 120000, maxClients = 2 \<rparr>"

definition client_a :: SSEClient where
  "client_a = \<lparr> client_id = ''a'', client_userId = Some ''u1'', client_sessionId = Some ''s1'',
                client_controller = 1, client_connectedAt = 1000, client_lastPing = None \<rparr>"

definition client_b :: SSEClient where
  "client_b = \<lparr> client_id = ''b'', client_userId = Some ''u1'', client_sessionId = None,
                client_controller = 2, client_connectedAt = 2000, client_lastPing = Some 61000 \<rparr>"

definition client_c :: SSEClient where
  "client_c = \<lparr> client_id = ''c'', client_userId = Some ''u2'', client_sessionId = None,
                client_controller = 3, client_connectedAt = 3000, client_lastPing = None \<rparr>"

text \<open>A second handle with the id of \<open>client_a\<close>, for another user.\<close>

definition client_a2 :: SSEClient where
  "client_a2 = \<lparr> client_id = ''a'', client_userId = Some ''u2'', client_sessionId = None,
                 client_controller = 4, client_connectedAt = 4000, client_lastPing = None \<rparr>"

text \<open>The registry after \<open>client_a\<close> and \<open>client_b\<close> were added, with two connections counted.\<close>

definition manager_ab :: SSEClientManager where
  "manager_ab =
     \<lparr> clients = [(''a'', client_a), (''b'', client_b)],
       userClientMap = [(''u1'', [''a'', ''b''])],
       sessionClientMap = [(''s1'', [''a''])],
       metrics = \<lparr> totalConnections = 2, eventsDispatched = 0, errors = 0 \<rparr>,
       config = cfg_two \<rparr>"

text \<open>The store in which the controller of \<open>client_b\<close> is closed and all others are open.\<close>

definition b_closed :: store where
  "b_closed = all_open(2 := \<lparr> ctrl_open = False, ctrl_chunks = [] \<rparr>)"

definition ping_event :: SSEEvent where
  "ping_event = \<lparr> event_type = ''ping'', event_data = Text ''x'',
                   event_id = None, event_retry = None \<rparr>"

text \<open>A service whose registry is \<open>manager_ab\<close>, with its two timers running.\<close>

definition service_ab :: SSEService where
  "service_ab =
     \<lparr> clientManager = manager_ab, svc_heartbeatInterval = Some 1,
       svc_cleanupInterval = Some 2, svc_config = cfg_two \<rparr>"

definition timers_ab :: timers where
  "timers_ab = [(1, HeartbeatTask, 30000), (2, CleanupTask, 60000)]"

text \<open>A fan-out that throws, and a filter that names a user without handles.\<close>

definition failing_fanout :: fanout where
  "failing_fanout cs event \<sigma> = (Inl (Error ''fan-out failed''), \<sigma>)"

definition filter_nobody :: ClientFilter where
  "filter_nobody =
     \<lparr> filter_userId = Some ''nobody'', filter_sessionId = None, filter_clientIds = None \<rparr>"

text \<open>A filter object with all three fields unset.\<close>

definition filter_unset :: ClientFilter where
  "filter_unset = \<lparr> filter_userId = None, filter_sessionId = None, filter_clientIds = None \<rparr>"

text \<open>An event whose payload is \<^verbatim>\<open>undefined\<close>, and the wire text of \<open>ping_event\<close>.\<close>

definition undefined_event :: SSEEvent where
  "undefined_event = \<lparr> event_type = ''ping'', event_data = Undefined,
                        event_id = None, event_retry = None \<rparr>"

definition ping_message :: string where
  "ping_message = ''event: ping'' @ [newline] @ ''data: x'' @ [newline, newline]"


section \<open>Properties\<close>

subsection \<open>The wire format\<close>

lemma fold_append_lines: "fold (\<lambda>line acc. acc @ f line) ls acc0 = acc0 @ concat (map f ls)"
  by (induction ls arbitrary: acc0) simp_all

lemma split_nl_nonempty: "split_nl s \<noteq> []"
  by (induction s) (simp_all split: list.splits)

lemma length_split_nl: "length (split_nl s) = Suc (count_list s newline)"
  by (induction s) (auto split: list.splits)

lemma join_head_Cons: "join sep ((c # x) # xs) = c # join sep (x # xs)"
  by (cases xs) simp_all

lemma join_Nil_Cons: "ls \<noteq> [] \<Longrightarrow> join sep ([] # ls) = sep @ join sep ls"
  by (cases ls) simp_all

lemma join_split_nl: "join [newline] (split_nl s) = s"
  by (induction s) (auto simp: join_head_Cons join_Nil_Cons split_nl_nonempty split: list.splits)

lemma split_nl_no_newline: "l \<in> set (split_nl s) \<Longrightarrow> newline \<notin> set l"
proof (induction s arbitrary: l)
  case Nil
  then show ?case by simp
next
  case (Cons c cs)
  obtain x xs where sp: "split_nl cs = x # xs"
    using split_nl_nonempty [of cs] by (cases "split_nl cs") auto
  show ?case
  proof (cases "c = newline")
    case True
    with Cons show ?thesis by auto
  next
    case False
    with Cons.prems sp have "l = c # x \<or> l \<in> set xs" by simp
    then show ?thesis
      using Cons.IH [of x] Cons.IH [of l] sp False by auto
  qed
qed

lemma formatSSEMessage_eq:
  "serialize (event_data e) = Some str \<Longrightarrow>
   formatSSEMessage e =
     Inr (event_line e @ id_line e @ retry_line e @ concat (map data_line (split_nl str)) @ [newline])"
  by (cases "event_id e"; cases "event_retry e")
     (simp_all add: formatSSEMessage_def Let_def fold_append_lines event_line_def id_line_def
       retry_line_def data_line_def [abs_def])

lemma formatSSEMessage_undefined:
  "serialize (event_data e) = None \<Longrightarrow> \<exists>err. formatSSEMessage e = Inl err"
  by (simp add: formatSSEMessage_def Let_def)

lemma show_int_3000: "show_int 3000 = ''3000''"
  by (simp add: show_int_def show_nat.simps [of 3000] show_nat.simps [of 300]
      show_nat.simps [of 30] show_nat.simps [of 3] digit_char_def)

text \<open>
  Claim C3. For the event with type \<open>notification\<close>, data \<open>{"message":"hi"}\<close>, id
  \<open>abc\<close> and no retry, \<open>formatSSEMessage\<close> returns exactly the event line, the id line,
  one data line with the JSON text and a blank line. For every event whose payload
  serializes to a string, the result is the event line, the id line, the retry line
  (present only for a retry that is set and not zero), the data lines and one final line
  feed, in this order; the message ends with a blank line.
\<close>

theorem formatSSEMessage_order:
  "formatSSEMessage \<lparr> event_type = ''notification'',
                       event_data = Structured (JObject [(''message'', JString ''hi'')]),
                       event_id = Some ''abc'', event_retry = None \<rparr>
     = Inr (''event: notification'' @ [newline] @ ''id: abc'' @ [newline]
            @ ''data: {'' @ dq @ ''message'' @ dq @ '':'' @ dq @ ''hi'' @ dq @ ''}'' @ [newline]
            @ [newline])
   \<and> (serialize (event_data e) = Some str \<longrightarrow>
        formatSSEMessage e =
          Inr (event_line e @ id_line e @ retry_line e
               @ concat (map data_line (split_nl str)) @ [newline])
        \<and> (\<exists>body. formatSSEMessage e = Inr (body @ [newline, newline])))"
proof -
  have example: "formatSSEMessage \<lparr> event_type = ''notification'',
                       event_data = Structured (JObject [(''message'', JString ''hi'')]),
                       event_id = Some ''abc'', event_retry = None \<rparr>
     = Inr (''event: notification'' @ [newline] @ ''id: abc'' @ [newline]
            @ ''data: {'' @ dq @ ''message'' @ dq @ '':'' @ dq @ ''hi'' @ dq @ ''}'' @ [newline]
            @ [newline])"
    by (simp add: formatSSEMessage_def quote_def escape_char_def newline_def dq_def)
  have general: "formatSSEMessage e =
          Inr (event_line e @ id_line e @ retry_line e
               @ concat (map data_line (split_nl str)) @ [newline])
        \<and> (\<exists>body. formatSSEMessage e = Inr (body @ [newline, newline]))"
    if ser: "serialize (event_data e) = Some str"
  proof -
    obtain ls l where sp: "split_nl str = ls @ [l]"
      using split_nl_nonempty [of str] by (metis rev_exhaust)
    have eq: "formatSSEMessage e =
          Inr (event_line e @ id_line e @ retry_line e
               @ concat (map data_line (split_nl str)) @ [newline])"
      by (rule formatSSEMessage_eq [OF ser])
    have "formatSSEMessage e = Inr ((event_line e @ id_line e @ retry_line e
               @ concat (map data_line ls) @ ''data: '' @ l) @ [newline, newline])"
      by (simp add: eq sp data_line_def)
    then show ?thesis using eq by blast
  qed
  show ?thesis using example general by blast
qed

theorem formatSSEMessage_order_witness:
  "serialize (event_data \<lparr> event_type = ''update'', event_data = Text (''a'' @ [newline] @ ''b''),
                           event_id = Some ''7'', event_retry = Some 3000 \<rparr>)
     = Some (''a'' @ [newline] @ ''b'')
   \<and> formatSSEMessage \<lparr> event_type = ''update'', event_data = Text (''a'' @ [newline] @ ''b''),
                         event_id = Some ''7'', event_retry = Some 3000 \<rparr>
     = Inr (''event: update'' @ [newline] @ ''id: 7'' @ [newline] @ ''retry: 3000'' @ [newline]
            @ ''data: a'' @ [newline] @ ''data: b'' @ [newline] @ [newline])"
  using formatSSEMessage_order
    [of "\<lparr> event_type = ''update'', event_data = Text (''a'' @ [newline] @ ''b''),
           event_id = Some ''7'', event_retry = Some 3000 \<rparr>" "''a'' @ [newline] @ ''b''"]
  by (simp add: event_line_def id_line_def retry_line_def data_line_def show_int_3000 newline_def)

text \<open>
  Claim C8. For every event whose payload serializes to a string, \<open>formatSSEMessage\<close>
  emits one \<^verbatim>\<open>data:\<close> line for each line of that string: the lines are the pieces
  between the line feeds (joined by line feeds they give the string back, and none
  contains a line feed), and there is one more of them than there are line feeds. A
  string with one line feed, that is two lines, gives exactly two \<^verbatim>\<open>data:\<close> lines.
\<close>

theorem formatSSEMessage_data_lines:
  "serialize (event_data e) = Some str \<Longrightarrow>
     formatSSEMessage e =
       Inr (event_line e @ id_line e @ retry_line e
            @ concat (map (\<lambda>l. ''data: '' @ l @ [newline]) (split_nl str)) @ [newline])
     \<and> join [newline] (split_nl str) = str
     \<and> (\<forall>l \<in> set (split_nl str). newline \<notin> set l)
     \<and> length (split_nl str) = Suc (count_list str newline)
     \<and> (count_list str newline = 1 \<longrightarrow>
          (\<exists>l1 l2. str = l1 @ [newline] @ l2 \<and>
             formatSSEMessage e =
               Inr (event_line e @ id_line e @ retry_line e
                    @ ''data: '' @ l1 @ [newline] @ ''data: '' @ l2 @ [newline] @ [newline])))"
proof -
  assume ser: "serialize (event_data e) = Some str"
  have eq: "formatSSEMessage e =
       Inr (event_line e @ id_line e @ retry_line e
            @ concat (map (\<lambda>l. ''data: '' @ l @ [newline]) (split_nl str)) @ [newline])"
    using formatSSEMessage_eq [OF ser] by (simp add: data_line_def [abs_def])
  have two: "\<exists>l1 l2. str = l1 @ [newline] @ l2 \<and>
             formatSSEMessage e =
               Inr (event_line e @ id_line e @ retry_line e
                    @ ''data: '' @ l1 @ [newline] @ ''data: '' @ l2 @ [newline] @ [newline])"
    if one: "count_list str newline = 1"
  proof -
    have "length (split_nl str) = 2" using one by (simp add: length_split_nl)
    then obtain l1 l2 where sp: "split_nl str = [l1, l2]"
      by (metis (no_types, opaque_lifting) One_nat_def Suc_1 length_0_conv length_Suc_conv)
    have "str = l1 @ [newline] @ l2"
      using join_split_nl [of str] by (simp add: sp)
    then show ?thesis using eq sp by auto
  qed
  show ?thesis
    using eq two join_split_nl [of str] split_nl_no_newline [of _ str] length_split_nl [of str]
    by blast
qed

theorem formatSSEMessage_data_lines_witness:
  "serialize (event_data \<lparr> event_type = ''message'', event_data = Text (''line1'' @ [newline] @ ''line2''),
                           event_id = None, event_retry = None \<rparr>)
     = Some (''line1'' @ [newline] @ ''line2'')
   \<and> formatSSEMessage \<lparr> event_type = ''message'', event_data = Text (''line1'' @ [newline] @ ''line2''),
                         event_id = None, event_retry = None \<rparr>
     = Inr (''event: message'' @ [newline] @ ''data: line1'' @ [newline] @ ''data: line2'' @ [newline]
            @ [newline])"
  using formatSSEMessage_data_lines
    [of "\<lparr> event_type = ''message'', event_data = Text (''line1'' @ [newline] @ ''line2''),
           event_id = None, event_retry = None \<rparr>" "''line1'' @ [newline] @ ''line2''"]
  by (simp add: event_line_def id_line_def retry_line_def newline_def)

subsection \<open>The registry: capacity and removal\<close>

lemma manager_ab_run:
  "run [AddClient client_a, AddClient client_b] (new_SSEClientManager cfg_two, all_open)
     = (manager_ab, all_open)"
  by (simp add: run_def addClient_def new_SSEClientManager_def cfg_two_def client_a_def client_b_def
      manager_ab_def map_set_def index_add_def map_has_def map_get_def set_add_def Let_def)

text \<open>
  Claim C4. When the size of the registry equals \<open>maxClients\<close>, \<open>addClient\<close> throws the
  capacity error and the registry is the one before the call: the primary map, both
  indexes and the counter \<open>totalConnections\<close> are unchanged.
\<close>

theorem addClient_at_capacity:
  "int (length (clients m)) = maxClients (config m) \<Longrightarrow>
     addClient client m = (Inl (capacity_error (maxClients (config m))), m)
     \<and> clients (snd (addClient client m)) = clients m
     \<and> userClientMap (snd (addClient client m)) = userClientMap m
     \<and> sessionClientMap (snd (addClient client m)) = sessionClientMap m
     \<and> totalConnections (metrics (snd (addClient client m))) = totalConnections (metrics m)"
  by (simp add: addClient_def)

theorem addClient_at_capacity_witness:
  "int (length (clients manager_ab)) = maxClients (config manager_ab)
   \<and> addClient client_c manager_ab = (Inl (Error ''Maximum client limit reached: 2''), manager_ab)"
  using addClient_at_capacity [of manager_ab client_c]
  by (simp add: manager_ab_def cfg_two_def capacity_error_def show_int_def show_nat.simps [of 2]
      digit_char_def)

lemma removeClient_absent:
  "map_get (clients m) cid = None \<Longrightarrow> removeClient cid (m, \<sigma>) = (False, m, \<sigma>)"
  by (simp add: removeClient.simps)

lemma removeClient_clients:
  "clients (fst (snd (removeClient cid (m, \<sigma>)))) = map_delete (clients m) cid"
  by (auto simp: removeClient.simps Let_def map_get_def map_delete_def map_of_eq_None_iff
      split: option.splits)

lemma map_get_map_delete: "map_get (map_delete al k) k = None"
  by (simp add: map_get_def map_delete_def delete_conv')

text \<open>
  Claim C7. Removing an id that is not registered returns \<open>false\<close> and changes nothing:
  neither the registry (maps, indexes, counters) nor the store of controllers. After any
  call of \<open>removeClient\<close> for an id, a second call for the same id returns \<open>false\<close> and
  leaves the state of the first call.
\<close>

theorem removeClient_idempotent:
  "(map_get (clients m) cid = None \<longrightarrow> removeClient cid (m, \<sigma>) = (False, m, \<sigma>))
   \<and> removeClient cid (snd (removeClient cid (m, \<sigma>))) = (False, snd (removeClient cid (m, \<sigma>)))"
proof -
  obtain m' \<sigma>' where after: "snd (removeClient cid (m, \<sigma>)) = (m', \<sigma>')"
    by (cases "snd (removeClient cid (m, \<sigma>))")
  have "clients m' = map_delete (clients m) cid"
    using removeClient_clients [of cid m \<sigma>] after by simp
  then have "map_get (clients m') cid = None"
    by (simp add: map_get_map_delete)
  then have "removeClient cid (m', \<sigma>') = (False, m', \<sigma>')"
    by (rule removeClient_absent)
  then show ?thesis
    using after removeClient_absent [of m cid \<sigma>] by simp
qed

theorem removeClient_idempotent_witness:
  "map_get (clients manager_ab) ''zzz'' = None
   \<and> removeClient ''zzz'' (manager_ab, all_open) = (False, manager_ab, all_open)
   \<and> fst (removeClient ''a'' (manager_ab, all_open)) = True
   \<and> fst (removeClient ''a'' (snd (removeClient ''a'' (manager_ab, all_open)))) = False"
proof -
  have absent: "map_get (clients manager_ab) ''zzz'' = None"
    by (simp add: manager_ab_def map_get_def)
  have first: "fst (removeClient ''a'' (manager_ab, all_open)) = True"
    by (simp add: removeClient.simps manager_ab_def map_get_def Let_def)
  have second: "fst (removeClient ''a'' (snd (removeClient ''a'' (manager_ab, all_open)))) = False"
    using removeClient_idempotent [of manager_ab "''a''" all_open, THEN conjunct2] by simp
  show ?thesis
    using removeClient_idempotent [of manager_ab "''zzz''" all_open, THEN conjunct1]
      absent first second by blast
qed

subsection \<open>The dispatcher: sending to many handles\<close>

lemma sendEventToClient_result:
  "fst (sendEventToClient c e \<sigma>)
     = (serialize (event_data e) \<noteq> None \<and> ctrl_open (\<sigma> (client_controller c)))"
proof (cases "serialize (event_data e)")
  case None
  then obtain err where "formatSSEMessage e = Inl err"
    using formatSSEMessage_undefined by blast
  with None show ?thesis by (simp add: sendEventToClient_def)
next
  case (Some str)
  from formatSSEMessage_eq [OF Some] Some show ?thesis
    by (simp add: sendEventToClient_def enqueue_def)
qed

lemma sendEventToClient_open:
  "ctrl_open (snd (sendEventToClient c e \<sigma>) x) = ctrl_open (\<sigma> x)"
  by (simp add: sendEventToClient_def enqueue_def split: sum.splits)

lemma send_each_open:
  "ctrl_open (snd (send_each cs e \<sigma>) x) = ctrl_open (\<sigma> x)"
proof (induction cs arbitrary: \<sigma>)
  case Nil
  then show ?case by simp
next
  case (Cons c cs)
  show ?case
    using Cons.IH [of "snd (sendEventToClient c e \<sigma>)"] sendEventToClient_open [of c e \<sigma> x]
    by (simp add: split_beta)
qed

lemma send_each_results:
  "fst (send_each cs e \<sigma>)
     = map (\<lambda>c. serialize (event_data e) \<noteq> None \<and> ctrl_open (\<sigma> (client_controller c))) cs"
proof (induction cs arbitrary: \<sigma>)
  case Nil
  then show ?case by simp
next
  case (Cons c cs)
  show ?case
    using Cons.IH [of "snd (sendEventToClient c e \<sigma>)"] sendEventToClient_result [of c e \<sigma>]
    by (simp add: split_beta sendEventToClient_open)
qed

lemma sendEventToClients_eq:
  "fst (sendEventToClients cs e \<sigma>)
     = int (length (filter (\<lambda>c. serialize (event_data e) \<noteq> None
                                  \<and> ctrl_open (\<sigma> (client_controller c))) cs))"
proof -
  have "length (filter (\<lambda>r. r) (map f cs)) = length (filter f cs)" for f :: "SSEClient \<Rightarrow> bool"
    by (induction cs) simp_all
  then show ?thesis
    by (simp add: sendEventToClients_def split_beta send_each_results)
qed

lemma sendEventToClient_step:
  "formatSSEMessage e = Inr msg \<Longrightarrow>
   sendEventToClient c e \<sigma>
     = (if ctrl_open (\<sigma> (client_controller c))
        then (True, \<sigma>(client_controller c :=
                       (\<sigma> (client_controller c))
                         \<lparr> ctrl_chunks := ctrl_chunks (\<sigma> (client_controller c)) @ [msg] \<rparr>))
        else (False, \<sigma>))"
  by (simp add: sendEventToClient_def enqueue_def)

lemma sendEventToClient_throws:
  "formatSSEMessage e = Inl err \<Longrightarrow> sendEventToClient c e \<sigma> = (False, \<sigma>)"
  by (simp add: sendEventToClient_def)

lemma send_each_store_fold:
  "snd (send_each cs e \<sigma>) = fold (\<lambda>c \<sigma>. snd (sendEventToClient c e \<sigma>)) cs \<sigma>"
  by (induction cs arbitrary: \<sigma>) (simp_all add: split_beta)

lemma sendEventToClients_store:
  "snd (sendEventToClients cs e \<sigma>) = snd (send_each cs e \<sigma>)"
  by (simp add: sendEventToClients_def split_beta)

lemma send_each_chunks:
  assumes msg: "formatSSEMessage e = Inr msg"
  shows "snd (send_each cs e \<sigma>) x
           = (if ctrl_open (\<sigma> x)
              then (\<sigma> x)\<lparr> ctrl_chunks := ctrl_chunks (\<sigma> x)
                       @ replicate (length (filter (\<lambda>c. client_controller c = x) cs)) msg \<rparr>
              else \<sigma> x)"
proof (induction cs arbitrary: \<sigma>)
  case Nil
  then show ?case by simp
next
  case (Cons c cs)
  show ?case
    using Cons.IH [of "snd (sendEventToClient c e \<sigma>)"]
    by (simp add: split_beta sendEventToClient_step [OF msg] replicate_append_same)
qed

lemma send_each_unsent:
  assumes err: "formatSSEMessage e = Inl err"
  shows "snd (send_each cs e \<sigma>) = \<sigma>"
  by (induction cs arbitrary: \<sigma>) (simp_all add: split_beta sendEventToClient_throws [OF err])

lemma formatSSEMessage_ping: "formatSSEMessage ping_event = Inr ping_message"
  by (simp add: formatSSEMessage_def ping_event_def ping_message_def newline_def)

lemma formatSSEMessage_undefined_event:
  "formatSSEMessage undefined_event
     = Inl (TypeError ''Cannot read properties of undefined (reading 'split')'')"
  by (simp add: formatSSEMessage_def undefined_event_def)

text \<open>
  Claim C6. \<open>sendEventToClients\<close> returns the number of sends that succeeded. The empty
  list gives 0 and leaves the store as it is. The result of each handle's send is decided
  by that handle's own controller in the store before the call (and by whether the
  payload serializes at all), whatever happens to the other handles; the count is the
  number of true results, so for a payload that serializes it is the number of handles
  whose controller is open. With three handles of which one has a closed controller,
  whose \<^verbatim>\<open>enqueue\<close> throws, the result is 2.

  A send that succeeds has written: when the event formats to the message \<open>msg\<close>, the
  send to a handle whose controller is open returns \<open>true\<close> and appends \<open>msg\<close> to the
  chunks of that controller and changes no other controller, and the send to a handle
  whose controller is closed returns \<open>false\<close> and writes nothing. The store after
  \<open>sendEventToClients\<close> is the store after the sends to the handles one after the other:
  every open controller has received \<open>msg\<close> once for each handle of the list that holds
  it, whether or not other handles failed, and every closed controller is unchanged.
  When formatting throws, the count is 0 and the store is unchanged. In the example with
  three handles, the two open controllers hold the message and the closed one holds
  nothing.
\<close>

theorem sendEventToClients_count:
  "sendEventToClients [] e \<sigma> = (0, \<sigma>)
   \<and> fst (send_each cs e \<sigma>)
       = map (\<lambda>c. serialize (event_data e) \<noteq> None \<and> ctrl_open (\<sigma> (client_controller c))) cs
   \<and> fst (sendEventToClients cs e \<sigma>)
       = int (length (filter (\<lambda>r. r = True) (fst (send_each cs e \<sigma>))))
   \<and> (serialize (event_data e) \<noteq> None \<longrightarrow>
        fst (sendEventToClients cs e \<sigma>)
          = int (length (filter (\<lambda>c. ctrl_open (\<sigma> (client_controller c))) cs)))
   \<and> fst (sendEventToClients [client_a, client_b, client_c] ping_event b_closed) = 2
   \<and> snd (sendEventToClients cs e \<sigma>) = fold (\<lambda>c \<sigma>. snd (sendEventToClient c e \<sigma>)) cs \<sigma>
   \<and> (formatSSEMessage e = Inr msg \<longrightarrow>
        sendEventToClient c e \<sigma>
          = (if ctrl_open (\<sigma> (client_controller c))
             then (True, \<sigma>(client_controller c :=
                            (\<sigma> (client_controller c))
                              \<lparr> ctrl_chunks := ctrl_chunks (\<sigma> (client_controller c)) @ [msg] \<rparr>))
             else (False, \<sigma>))
        \<and> (\<forall>x. snd (sendEventToClients cs e \<sigma>) x
                 = (if ctrl_open (\<sigma> x)
                    then (\<sigma> x)\<lparr> ctrl_chunks := ctrl_chunks (\<sigma> x)
                             @ replicate (length (filter (\<lambda>c. client_controller c = x) cs)) msg \<rparr>
                    else \<sigma> x)))
   \<and> (formatSSEMessage e = Inl err \<longrightarrow> sendEventToClients cs e \<sigma> = (0, \<sigma>))
   \<and> ctrl_chunks (snd (sendEventToClients [client_a, client_b, client_c] ping_event b_closed) 1)
       = [ping_message]
   \<and> ctrl_chunks (snd (sendEventToClients [client_a, client_b, client_c] ping_event b_closed) 2)
       = []
   \<and> ctrl_chunks (snd (sendEventToClients [client_a, client_b, client_c] ping_event b_closed) 3)
       = [ping_message]"
proof -
  have empty: "sendEventToClients [] e \<sigma> = (0, \<sigma>)"
    by (simp add: sendEventToClients_def)
  have count: "fst (sendEventToClients cs e \<sigma>)
       = int (length (filter (\<lambda>r. r = True) (fst (send_each cs e \<sigma>))))"
    by (simp add: sendEventToClients_def split_beta)
  have ok: "fst (sendEventToClients cs e \<sigma>)
          = int (length (filter (\<lambda>c. ctrl_open (\<sigma> (client_controller c))) cs))"
    if "serialize (event_data e) \<noteq> None"
    using that by (simp add: sendEventToClients_eq)
  have three: "fst (sendEventToClients [client_a, client_b, client_c] ping_event b_closed) = 2"
    by (simp add: sendEventToClients_eq ping_event_def b_closed_def all_open_def
        client_a_def client_b_def client_c_def)
  have store: "snd (sendEventToClients cs e \<sigma>)
                 = fold (\<lambda>c \<sigma>. snd (sendEventToClient c e \<sigma>)) cs \<sigma>"
    by (simp only: sendEventToClients_store send_each_store_fold)
  have written: "sendEventToClient c e \<sigma>
          = (if ctrl_open (\<sigma> (client_controller c))
             then (True, \<sigma>(client_controller c :=
                            (\<sigma> (client_controller c))
                              \<lparr> ctrl_chunks := ctrl_chunks (\<sigma> (client_controller c)) @ [msg] \<rparr>))
             else (False, \<sigma>))
        \<and> (\<forall>x. snd (sendEventToClients cs e \<sigma>) x
                 = (if ctrl_open (\<sigma> x)
                    then (\<sigma> x)\<lparr> ctrl_chunks := ctrl_chunks (\<sigma> x)
                             @ replicate (length (filter (\<lambda>c. client_controller c = x) cs)) msg \<rparr>
                    else \<sigma> x))"
    if msg: "formatSSEMessage e = Inr msg"
    using sendEventToClient_step [OF msg, of c \<sigma>] send_each_chunks [OF msg, of cs \<sigma>]
    by (simp only: sendEventToClients_store) blast
  have thrown: "sendEventToClients cs e \<sigma> = (0, \<sigma>)" if err: "formatSSEMessage e = Inl err"
  proof -
    have "serialize (event_data e) = None"
    proof (cases "serialize (event_data e)")
      case None
      then show ?thesis .
    next
      case (Some str)
      from formatSSEMessage_eq [OF Some] err show ?thesis by simp
    qed
    then have "fst (sendEventToClients cs e \<sigma>) = 0"
      by (simp add: sendEventToClients_eq)
    moreover have "snd (sendEventToClients cs e \<sigma>) = \<sigma>"
      by (simp only: sendEventToClients_store send_each_unsent [OF err])
    ultimately show ?thesis by (simp add: prod_eq_iff)
  qed
  have sinks: "ctrl_chunks (snd (sendEventToClients [client_a, client_b, client_c] ping_event b_closed) 1)
       = [ping_message]"
    "ctrl_chunks (snd (sendEventToClients [client_a, client_b, client_c] ping_event b_closed) 2)
       = []"
    "ctrl_chunks (snd (sendEventToClients [client_a, client_b, client_c] ping_event b_closed) 3)
       = [ping_message]"
    unfolding sendEventToClients_store send_each_chunks [OF formatSSEMessage_ping]
    by (simp_all add: b_closed_def all_open_def client_a_def client_b_def client_c_def)
  show ?thesis
    using empty count ok three send_each_results [of cs e \<sigma>] store written thrown sinks
    by blast
qed

theorem sendEventToClients_count_witness:
  "serialize (event_data ping_event) \<noteq> None
   \<and> fst (sendEventToClients [client_b, client_c] ping_event b_closed) = 1
   \<and> formatSSEMessage ping_event = Inr ping_message
   \<and> sendEventToClient client_c ping_event b_closed
       = (True, b_closed(3 := \<lparr> ctrl_open = True, ctrl_chunks = [ping_message] \<rparr>))
   \<and> sendEventToClient client_b ping_event b_closed = (False, b_closed)
   \<and> snd (sendEventToClients [client_b, client_c] ping_event b_closed) 3
       = \<lparr> ctrl_open = True, ctrl_chunks = [ping_message] \<rparr>
   \<and> snd (sendEventToClients [client_b, client_c] ping_event b_closed) 2
       = \<lparr> ctrl_open = False, ctrl_chunks = [] \<rparr>
   \<and> formatSSEMessage undefined_event
       = Inl (TypeError ''Cannot read properties of undefined (reading 'split')'')
   \<and> sendEventToClients [client_b, client_c] undefined_event b_closed = (0, b_closed)"
proof -
  have ser: "serialize (event_data ping_event) \<noteq> None"
    by (simp add: ping_event_def)
  note counted = sendEventToClients_count
    [where e = ping_event and \<sigma> = b_closed and cs = "[client_b, client_c]",
      THEN conjunct2, THEN conjunct2, THEN conjunct2, THEN conjunct1, rule_format, OF ser]
  note sent_c = sendEventToClients_count
    [where e = ping_event and \<sigma> = b_closed and cs = "[client_b, client_c]"
       and c = client_c,
      THEN conjunct2, THEN conjunct2, THEN conjunct2, THEN conjunct2, THEN conjunct2,
      THEN conjunct2, THEN conjunct1, THEN mp, OF formatSSEMessage_ping]
  note sent_b = sendEventToClients_count
    [where e = ping_event and \<sigma> = b_closed and cs = "[client_b, client_c]"
       and c = client_b,
      THEN conjunct2, THEN conjunct2, THEN conjunct2, THEN conjunct2, THEN conjunct2,
      THEN conjunct2, THEN conjunct1, THEN mp, OF formatSSEMessage_ping]
  note unsent = sendEventToClients_count
    [where e = undefined_event and \<sigma> = b_closed and cs = "[client_b, client_c]",
      THEN conjunct2, THEN conjunct2, THEN conjunct2, THEN conjunct2, THEN conjunct2,
      THEN conjunct2, THEN conjunct2, THEN conjunct1, THEN mp,
      OF formatSSEMessage_undefined_event]
  have n: "fst (sendEventToClients [client_b, client_c] ping_event b_closed) = 1"
    using counted by (simp add: b_closed_def all_open_def client_b_def client_c_def)
  have c: "sendEventToClient client_c ping_event b_closed
       = (True, b_closed(3 := \<lparr> ctrl_open = True, ctrl_chunks = [ping_message] \<rparr>))"
    using sent_c [THEN conjunct1]
    by (simp add: b_closed_def all_open_def client_c_def)
  have b: "sendEventToClient client_b ping_event b_closed = (False, b_closed)"
    using sent_b [THEN conjunct1]
    by (simp add: b_closed_def all_open_def client_b_def)
  have s3: "snd (sendEventToClients [client_b, client_c] ping_event b_closed) 3
       = \<lparr> ctrl_open = True, ctrl_chunks = [ping_message] \<rparr>"
    using sent_c [THEN conjunct2, THEN spec, where x = 3]
    by (simp add: b_closed_def all_open_def client_b_def client_c_def)
  have s2: "snd (sendEventToClients [client_b, client_c] ping_event b_closed) 2
       = \<lparr> ctrl_open = False, ctrl_chunks = [] \<rparr>"
    using sent_c [THEN conjunct2, THEN spec, where x = 2]
    by (simp add: b_closed_def all_open_def client_b_def client_c_def)
  show ?thesis
    using ser n formatSSEMessage_ping c b s3 s2 formatSSEMessage_undefined_event unsent
    by blast
qed

subsection \<open>The service: sendEvent\<close>

lemma dispatcher_fanout_ok:
  "dispatcher_fanout cs e \<sigma>
     = (Inr (fst (sendEventToClients cs e \<sigma>)), snd (sendEventToClients cs e \<sigma>))"
  by (simp add: dispatcher_fanout_def split_beta)

text \<open>
  Claim C9. \<open>sendEvent\<close> resolves its targets from the filter, or takes all handles
  when no filter is given. When there is no target it returns 0 and the service (with
  every counter) and the store are unchanged. When there are targets and the fan-out
  returns a count, \<open>sendEvent\<close> returns that count and \<open>eventsDispatched\<close> is one more.
  When the fan-out throws, \<open>errors\<close> is one more and the same exception is thrown to the
  caller. The dispatcher the service is built with never throws.
\<close>

theorem sendEvent_with_cases:
  assumes targets: "cs = (case flt of
                            Some f \<Rightarrow> getClientsByFilter (clientManager svc) f
                          | None \<Rightarrow> getAllClients (clientManager svc))"
  shows "(cs = [] \<longrightarrow> sendEvent_with fanout e flt (svc, \<sigma>) = (Inr 0, svc, \<sigma>))
   \<and> (cs \<noteq> [] \<and> fanout cs e \<sigma> = (Inr n, \<sigma>') \<longrightarrow>
        sendEvent_with fanout e flt (svc, \<sigma>)
          = (Inr n, svc\<lparr> clientManager := (clientManager svc)\<lparr> metrics := (metrics (clientManager svc))
                \<lparr> eventsDispatched := eventsDispatched (metrics (clientManager svc)) + 1 \<rparr> \<rparr> \<rparr>, \<sigma>'))
   \<and> (cs \<noteq> [] \<and> fanout cs e \<sigma> = (Inl err, \<sigma>') \<longrightarrow>
        sendEvent_with fanout e flt (svc, \<sigma>)
          = (Inl err, svc\<lparr> clientManager := (clientManager svc)\<lparr> metrics := (metrics (clientManager svc))
                \<lparr> errors := errors (metrics (clientManager svc)) + 1 \<rparr> \<rparr> \<rparr>, \<sigma>'))
   \<and> (\<exists>k \<sigma>''. dispatcher_fanout cs e \<sigma> = (Inr k, \<sigma>''))"
  using targets
  by (simp add: sendEvent_with_def Let_def incrementEventsDispatched_def incrementErrors_def
      dispatcher_fanout_ok)

lemma targets_nobody: "getClientsByFilter (clientManager service_ab) filter_nobody = []"
  by (simp add: getClientsByFilter_def filter_nobody_def service_ab_def manager_ab_def map_get_def)

lemma targets_all: "getAllClients (clientManager service_ab) = [client_a, client_b]"
  by (simp add: getAllClients_def service_ab_def manager_ab_def)

lemma count_ab: "fst (sendEventToClients [client_a, client_b] ping_event b_closed) = 1"
  by (simp add: sendEventToClients_eq ping_event_def b_closed_def all_open_def
      client_a_def client_b_def)

theorem sendEvent_with_cases_witness:
  "getClientsByFilter (clientManager service_ab) filter_nobody = []
   \<and> sendEvent_with dispatcher_fanout ping_event (Some filter_nobody) (service_ab, all_open)
       = (Inr 0, service_ab, all_open)
   \<and> getAllClients (clientManager service_ab) \<noteq> []
   \<and> fst (sendEvent_with dispatcher_fanout ping_event None (service_ab, b_closed)) = Inr 1
   \<and> eventsDispatched (metrics (clientManager (fst (snd
         (sendEvent_with dispatcher_fanout ping_event None (service_ab, b_closed)))))) = 1
   \<and> fst (sendEvent_with failing_fanout ping_event None (service_ab, all_open))
       = Inl (Error ''fan-out failed'')
   \<and> errors (metrics (clientManager (fst (snd
         (sendEvent_with failing_fanout ping_event None (service_ab, all_open)))))) = 1"
proof -
  note a = sendEvent_with_cases [OF refl, where flt = "Some filter_nobody" and svc = service_ab
      and fanout = dispatcher_fanout and e = ping_event and \<sigma> = all_open]
  note b = sendEvent_with_cases [OF refl, where flt = None and svc = service_ab
      and fanout = dispatcher_fanout and e = ping_event and \<sigma> = b_closed
      and n = "fst (sendEventToClients [client_a, client_b] ping_event b_closed)"
      and \<sigma>' = "snd (sendEventToClients [client_a, client_b] ping_event b_closed)"]
  note c = sendEvent_with_cases [OF refl, where flt = None and svc = service_ab
      and fanout = failing_fanout and e = ping_event and \<sigma> = all_open
      and err = "Error ''fan-out failed''" and \<sigma>' = all_open]
  have errs: "errors (metrics (clientManager service_ab)) = 0"
    and disp: "eventsDispatched (metrics (clientManager service_ab)) = 0"
    by (simp_all add: service_ab_def manager_ab_def)
  show ?thesis
    using a b c
    by (simp add: targets_nobody targets_all count_ab dispatcher_fanout_ok failing_fanout_def
        errs disp)
qed

text \<open>
  Claim C10. With a filter object whose three fields are all unset, \<open>sendEvent\<close> returns
  0 and changes nothing, in every state of the registry, so also when handles are
  registered; this is the filter that \<open>sseUtils\<close> builds from the default options. With
  no filter argument and a registry that is not empty, \<open>sendEvent\<close> sends to all
  registered handles and counts the dispatch.
\<close>

theorem sendEvent_unset_filter:
  "sendEvent e (Some \<lparr> filter_userId = None, filter_sessionId = None, filter_clientIds = None \<rparr>)
       (svc, \<sigma>) = (Inr 0, svc, \<sigma>)
   \<and> sendCustomEvent now eventType d default_options (svc, \<sigma>) = (Inr 0, svc, \<sigma>)
   \<and> (clients (clientManager svc) \<noteq> [] \<longrightarrow>
        sendEvent e None (svc, \<sigma>)
          = (Inr (fst (sendEventToClients (map snd (clients (clientManager svc))) e \<sigma>)),
             svc\<lparr> clientManager := incrementEventsDispatched (clientManager svc) \<rparr>,
             snd (sendEventToClients (map snd (clients (clientManager svc))) e \<sigma>)))"
  by (simp add: sendEvent_def sendEvent_with_def getClientsByFilter_def getAllClients_def
      sendCustomEvent_def default_options_def dispatcher_fanout_ok)

theorem sendEvent_unset_filter_witness:
  "clients (clientManager service_ab) \<noteq> []
   \<and> sendEvent ping_event (Some filter_unset) (service_ab, all_open) = (Inr 0, service_ab, all_open)
   \<and> fst (sendEvent ping_event None (service_ab, all_open)) = Inr 2"
proof -
  have cl: "clients (clientManager service_ab) = [(''a'', client_a), (''b'', client_b)]"
    by (simp add: service_ab_def manager_ab_def)
  have two: "fst (sendEventToClients [client_a, client_b] ping_event all_open) = 2"
    by (simp add: sendEventToClients_eq ping_event_def all_open_def)
  show ?thesis
    using sendEvent_unset_filter [of ping_event service_ab all_open 0 "[]" Undefined]
    by (simp add: cl two filter_unset_def)
qed

subsection \<open>The registry: the indexes follow the primary map\<close>

lemma map_of_index_add:
  "map_of (index_add idx k cid)
     = (map_of idx)(k \<mapsto> set_add (case map_of idx k of None \<Rightarrow> [] | Some s \<Rightarrow> s) cid)"
  by (auto simp: index_add_def map_has_def map_get_def map_set_def update_conv' Let_def
      split: option.splits)

lemma distinct_index_add:
  "distinct (map fst idx) \<Longrightarrow> distinct (map fst (index_add idx k cid))"
  by (auto simp: index_add_def map_has_def map_get_def map_set_def distinct_update Let_def
      split: option.splits)

lemma map_of_index_remove:
  "map_of (index_remove idx k cid)
     = (case map_of idx k of
          None \<Rightarrow> map_of idx
        | Some s \<Rightarrow> if set_delete s cid = [] then (map_of idx)(k := None)
                    else (map_of idx)(k \<mapsto> set_delete s cid))"
  by (auto simp: index_remove_def map_get_def map_set_def map_delete_def update_conv' delete_conv'
      Let_def split: option.splits)

lemma distinct_index_remove:
  "distinct (map fst idx) \<Longrightarrow> distinct (map fst (index_remove idx k cid))"
  by (auto simp: index_remove_def map_get_def map_set_def map_delete_def distinct_update
      distinct_delete Let_def split: option.splits)

lemma removeAll_Nil_iff: "removeAll x xs = [] \<longleftrightarrow> set xs \<subseteq> {x}"
  by (induction xs) auto

lemma index_invI:
  "distinct (map fst idx) \<Longrightarrow>
   (\<And>key. members_of idx key
            = {cid. \<exists>c. map_of cl cid = Some c \<and> field c = Some key \<and> key \<noteq> []}) \<Longrightarrow>
   (\<And>key. map_of idx key \<noteq> Some []) \<Longrightarrow> index_inv field idx cl"
  unfolding index_inv_def by blast

lemma index_inv_distinct: "index_inv field idx cl \<Longrightarrow> distinct (map fst idx)"
  unfolding index_inv_def by blast

lemma index_inv_members:
  "index_inv field idx cl \<Longrightarrow>
   members_of idx key = {cid. \<exists>c. map_of cl cid = Some c \<and> field c = Some key \<and> key \<noteq> []}"
  unfolding index_inv_def by blast

lemma index_inv_no_empty: "index_inv field idx cl \<Longrightarrow> map_of idx key \<noteq> Some []"
  unfolding index_inv_def by blast

lemma members_of_index_add:
  "members_of (index_add idx k cid) key
     = (if key = k then insert cid (members_of idx k) else members_of idx key)"
  by (auto simp: members_of_def map_of_index_add set_add_def split: option.splits)

lemma members_of_index_remove:
  "members_of (index_remove idx k cid) key
     = (if key = k then members_of idx k - {cid} else members_of idx key)"
  by (auto simp: members_of_def map_of_index_remove set_delete_def removeAll_Nil_iff
      split: option.splits if_splits)

lemma no_empty_index_add:
  "(\<forall>key. map_of idx key \<noteq> Some []) \<Longrightarrow> map_of (index_add idx k cid) key \<noteq> Some []"
  by (auto simp: map_of_index_add set_add_def split: option.splits if_splits)

lemma no_empty_index_remove:
  "(\<forall>key. map_of idx key \<noteq> Some []) \<Longrightarrow> map_of (index_remove idx k cid) key \<noteq> Some []"
  by (auto simp: map_of_index_remove split: option.splits if_splits)

lemma index_inv_add:
  assumes inv: "index_inv field idx cl" and fresh: "map_of cl i = None"
  shows "index_inv field
           (case field c of None \<Rightarrow> idx
            | Some k \<Rightarrow> if k \<noteq> [] then index_add idx k i else idx)
           (map_set cl i c)"
proof (cases "field c")
  case None
  with inv fresh show ?thesis
    by (auto simp: index_inv_def map_set_def update_conv')
next
  case (Some k)
  show ?thesis
  proof (cases "k = []")
    case True
    with Some inv fresh show ?thesis
      by (auto simp: index_inv_def map_set_def update_conv')
  next
    case False
    have mem: "members_of (index_add idx k i) key
                 = {cid. \<exists>c'. map_of (map_set cl i c) cid = Some c' \<and> field c' = Some key \<and> key \<noteq> []}"
      for key
      using inv fresh Some False
      by (auto simp: index_inv_def members_of_index_add map_set_def update_conv')
    have idx': "(case field c of None \<Rightarrow> idx
                 | Some k \<Rightarrow> if k \<noteq> [] then index_add idx k i else idx) = index_add idx k i"
      using Some False by simp
    show ?thesis
      unfolding idx'
    proof (rule index_invI)
      show "distinct (map fst (index_add idx k i))"
        using index_inv_distinct [OF inv] by (rule distinct_index_add)
      show "map_of (index_add idx k i) key \<noteq> Some []" for key
        using index_inv_no_empty [OF inv] by (intro no_empty_index_add) blast
    qed (rule mem)
  qed
qed

lemma index_inv_remove:
  assumes inv: "index_inv field idx cl" and present: "map_of cl i = Some c"
  shows "index_inv field
           (case field c of None \<Rightarrow> idx
            | Some k \<Rightarrow> if k \<noteq> [] then index_remove idx k i else idx)
           (map_delete cl i)"
proof (cases "field c")
  case None
  with inv present show ?thesis
    by (auto simp: index_inv_def map_delete_def delete_conv')
next
  case (Some k)
  show ?thesis
  proof (cases "k = []")
    case True
    with Some inv present show ?thesis
      by (auto simp: index_inv_def map_delete_def delete_conv')
  next
    case False
    have mem: "members_of (index_remove idx k i) key
                 = {cid. \<exists>c'. map_of (map_delete cl i) cid = Some c' \<and> field c' = Some key \<and> key \<noteq> []}"
      for key
      using inv present Some False
      by (auto simp: index_inv_def members_of_index_remove map_delete_def delete_conv')
    have idx': "(case field c of None \<Rightarrow> idx
                 | Some k \<Rightarrow> if k \<noteq> [] then index_remove idx k i else idx) = index_remove idx k i"
      using Some False by simp
    show ?thesis
      unfolding idx'
    proof (rule index_invI)
      show "distinct (map fst (index_remove idx k i))"
        using index_inv_distinct [OF inv] by (rule distinct_index_remove)
      show "map_of (index_remove idx k i) key \<noteq> Some []" for key
        using index_inv_no_empty [OF inv] by (intro no_empty_index_remove) blast
    qed (rule mem)
  qed
qed

subsection \<open>The registry: index consistency over runs\<close>

lemma addClient_full:
  "int (length (clients m)) \<ge> maxClients (config m) \<Longrightarrow> snd (addClient c m) = m"
  by (simp add: addClient_def)

lemma addClient_fields:
  assumes "\<not> int (length (clients m)) \<ge> maxClients (config m)"
  shows "clients (snd (addClient c m)) = map_set (clients m) (client_id c) c"
    and "userClientMap (snd (addClient c m))
           = (case client_userId c of None \<Rightarrow> userClientMap m
              | Some k \<Rightarrow> if k \<noteq> [] then index_add (userClientMap m) k (client_id c)
                          else userClientMap m)"
    and "sessionClientMap (snd (addClient c m))
           = (case client_sessionId c of None \<Rightarrow> sessionClientMap m
              | Some k \<Rightarrow> if k \<noteq> [] then index_add (sessionClientMap m) k (client_id c)
                          else sessionClientMap m)"
    and "metrics (snd (addClient c m))
           = (metrics m)\<lparr> totalConnections := totalConnections (metrics m) + 1 \<rparr>"
    and "config (snd (addClient c m)) = config m"
  using assms by (simp_all add: addClient_def Let_def split: option.splits)

lemma removeClient_fields:
  assumes "map_get (clients m) cid = Some c"
  shows "fst (removeClient cid (m, \<sigma>)) = True"
    and "clients (fst (snd (removeClient cid (m, \<sigma>)))) = map_delete (clients m) cid"
    and "userClientMap (fst (snd (removeClient cid (m, \<sigma>))))
           = (case client_userId c of None \<Rightarrow> userClientMap m
              | Some k \<Rightarrow> if k \<noteq> [] then index_remove (userClientMap m) k cid
                          else userClientMap m)"
    and "sessionClientMap (fst (snd (removeClient cid (m, \<sigma>))))
           = (case client_sessionId c of None \<Rightarrow> sessionClientMap m
              | Some k \<Rightarrow> if k \<noteq> [] then index_remove (sessionClientMap m) k cid
                          else sessionClientMap m)"
    and "metrics (fst (snd (removeClient cid (m, \<sigma>)))) = metrics m"
    and "config (fst (snd (removeClient cid (m, \<sigma>)))) = config m"
  using assms by (simp_all add: removeClient.simps Let_def split: option.splits)

lemma registry_inv_addClient:
  assumes inv: "registry_inv m" and fresh: "map_get (clients m) (client_id c) = None"
  shows "registry_inv (snd (addClient c m))"
proof (cases "int (length (clients m)) \<ge> maxClients (config m)")
  case True
  then show ?thesis using inv by (simp add: addClient_full)
next
  case False
  have fr: "map_of (clients m) (client_id c) = None"
    using fresh by (simp add: map_get_def)
  have "distinct (map fst (map_set (clients m) (client_id c) c))"
    using inv by (simp add: registry_inv_def map_set_def distinct_update)
  moreover have "index_inv client_userId (userClientMap (snd (addClient c m)))
                   (map_set (clients m) (client_id c) c)"
    unfolding addClient_fields(2) [OF False]
    using inv fr by (intro index_inv_add) (simp_all add: registry_inv_def)
  moreover have "index_inv client_sessionId (sessionClientMap (snd (addClient c m)))
                   (map_set (clients m) (client_id c) c)"
    unfolding addClient_fields(3) [OF False]
    using inv fr by (intro index_inv_add) (simp_all add: registry_inv_def)
  ultimately show ?thesis
    by (simp add: registry_inv_def addClient_fields(1) [OF False])
qed

lemma registry_inv_removeClient:
  assumes inv: "registry_inv m"
  shows "registry_inv (fst (snd (removeClient cid (m, \<sigma>))))"
proof (cases "map_get (clients m) cid")
  case None
  then show ?thesis using inv by (simp add: removeClient_absent)
next
  case (Some c)
  have pr: "map_of (clients m) cid = Some c"
    using Some by (simp add: map_get_def)
  have "distinct (map fst (map_delete (clients m) cid))"
    using inv by (simp add: registry_inv_def map_delete_def distinct_delete)
  moreover have "index_inv client_userId (userClientMap (fst (snd (removeClient cid (m, \<sigma>)))))
                   (map_delete (clients m) cid)"
    unfolding removeClient_fields(3) [OF Some]
    using inv pr by (intro index_inv_remove) (simp_all add: registry_inv_def)
  moreover have "index_inv client_sessionId (sessionClientMap (fst (snd (removeClient cid (m, \<sigma>)))))
                   (map_delete (clients m) cid)"
    unfolding removeClient_fields(4) [OF Some]
    using inv pr by (intro index_inv_remove) (simp_all add: registry_inv_def)
  ultimately show ?thesis
    by (simp add: registry_inv_def removeClient_fields(2) [OF Some])
qed

lemma registry_inv_new: "registry_inv (new_SSEClientManager cfg)"
  by (simp add: registry_inv_def index_inv_def members_of_def new_SSEClientManager_def)

lemma index_inv_exact:
  assumes inv: "index_inv field idx cl" and d: "distinct (map fst cl)"
  shows "index_exact field idx cl"
proof -
  have ids: "set (ids_where field key cl) = {cid. \<exists>c. map_of cl cid = Some c \<and> field c = Some key}"
    for key
    using d by (auto simp: ids_where_def intro: rev_image_eqI)
  have entry: "k \<noteq> [] \<and> s \<noteq> [] \<and> set s = set (ids_where field k cl)" if "(k, s) \<in> set idx" for k s
  proof -
    have look: "map_of idx k = Some s"
      using that index_inv_distinct [OF inv] by simp
    then have ne: "s \<noteq> []" using index_inv_no_empty [OF inv, of k] by auto
    have mem: "set s = {cid. \<exists>c. map_of cl cid = Some c \<and> field c = Some k \<and> k \<noteq> []}"
      using index_inv_members [OF inv, of k] look by (simp add: members_of_def)
    have "k \<noteq> []" using ne mem by (cases s) auto
    then show ?thesis using ne mem ids by simp
  qed
  have handle: "case field c of None \<Rightarrow> True
                | Some key \<Rightarrow> key = [] \<or> (case map_of idx key of None \<Rightarrow> False
                                            | Some members \<Rightarrow> cid \<in> set members)"
    if "(cid, c) \<in> set cl" for cid c
  proof (cases "field c")
    case None
    then show ?thesis by simp
  next
    case (Some key)
    have "map_of cl cid = Some c" using that d by simp
    then have "key \<noteq> [] \<Longrightarrow> cid \<in> members_of idx key"
      using index_inv_members [OF inv, of key] Some by simp
    then show ?thesis using Some
      by (cases "key = []") (auto simp: members_of_def split: option.splits)
  qed
  show ?thesis
    unfolding index_exact_def list_all_iff using entry handle by fastforce
qed

lemma registry_inv_exact: "registry_inv m \<Longrightarrow> indexes_exact m"
  by (simp add: registry_inv_def indexes_exact_def index_inv_exact)

lemma registry_inv_apply_op:
  "registry_inv (fst s) \<Longrightarrow> fresh_ids [op] s \<Longrightarrow> registry_inv (fst (apply_op op s))"
  by (cases op; cases s) (simp_all add: registry_inv_addClient registry_inv_removeClient)

lemma registry_inv_run:
  "registry_inv (fst s) \<Longrightarrow> fresh_ids ops s \<Longrightarrow> registry_inv (fst (run ops s))"
proof (induction ops arbitrary: s)
  case Nil
  then show ?case by (simp add: run_def)
next
  case (Cons op ops)
  have step: "registry_inv (fst (apply_op op s))"
    using Cons.prems by (intro registry_inv_apply_op) (cases op; simp)+
  have rest: "fresh_ids ops (apply_op op s)"
    using Cons.prems(2) by (cases op) simp_all
  show ?case
    using Cons.IH [OF step rest] by (simp add: run_def)
qed

lemma fresh_ids_take: "fresh_ids ops s \<Longrightarrow> fresh_ids (take n ops) s"
proof (induction ops arbitrary: s n)
  case Nil
  then show ?case by simp
next
  case (Cons op ops)
  then show ?case by (cases n; cases op) simp_all
qed

text \<open>
  Claim C2, amended. Start from the empty registry and run any sequence of \<open>addClient\<close>
  and \<open>removeClient\<close> calls in which every handle is added under an id that is not
  registered at that moment. Then after every prefix of the sequence both indexes are
  exact: every index entry has a member set that is not empty and holds exactly the ids
  of the registered handles with that \<open>userId\<close> (or \<open>sessionId\<close>), and every registered
  handle with a \<open>userId\<close> (or \<open>sessionId\<close>) that is set and not the empty string is a
  member of the entry under it. An entry whose member set would be empty does not exist.
\<close>

theorem indexes_exact_run:
  "fresh_ids ops (new_SSEClientManager cfg, \<sigma>) \<Longrightarrow>
     indexes_exact (fst (run (take n ops) (new_SSEClientManager cfg, \<sigma>)))"
  by (intro registry_inv_exact registry_inv_run fresh_ids_take) (simp_all add: registry_inv_new)

lemma run_duplicate_id:
  "fst (run [AddClient client_a, AddClient client_a2] (new_SSEClientManager cfg_two, all_open))
     = \<lparr> clients = [(''a'', client_a2)],
         userClientMap = [(''u1'', [''a'']), (''u2'', [''a''])],
         sessionClientMap = [(''s1'', [''a''])],
         metrics = \<lparr> totalConnections = 2, eventsDispatched = 0, errors = 0 \<rparr>,
         config = cfg_two \<rparr>"
  by (simp add: run_def addClient_def new_SSEClientManager_def cfg_two_def client_a_def
      client_a2_def map_set_def index_add_def map_has_def map_get_def set_add_def Let_def)

text \<open>
  Claim C2 as stated, for every sequence of operations, fails when a handle is added
  under an id that is already registered: \<^verbatim>\<open>clients.set\<close> replaces the handle, and the
  index entry of the replaced handle's user keeps the id.
\<close>

theorem indexes_exact_run_counterexample:
  "\<not> indexes_exact
       (fst (run [AddClient client_a, AddClient client_a2] (new_SSEClientManager cfg_two, all_open)))"
proof -
  have "\<not> index_exact client_userId [(''u1'', [''a'']), (''u2'', [''a''])] [(''a'', client_a2)]"
    by (simp add: index_exact_def ids_where_def client_a2_def)
  then show ?thesis
    unfolding run_duplicate_id by (simp add: indexes_exact_def)
qed

lemma run_add_add_remove:
  "fst (run [AddClient client_a, AddClient client_b, RemoveClient ''a'']
          (new_SSEClientManager cfg_two, all_open))
     = \<lparr> clients = [(''b'', client_b)],
         userClientMap = [(''u1'', [''b''])],
         sessionClientMap = [],
         metrics = \<lparr> totalConnections = 2, eventsDispatched = 0, errors = 0 \<rparr>,
         config = cfg_two \<rparr>"
proof -
  have "run [AddClient client_a, AddClient client_b, RemoveClient ''a'']
          (new_SSEClientManager cfg_two, all_open)
        = snd (removeClient ''a'' (manager_ab, all_open))"
    using manager_ab_run by (simp add: run_def)
  then show ?thesis
    by (simp add: removeClient.simps manager_ab_def map_get_def map_delete_def map_set_def
        index_remove_def set_delete_def client_a_def Let_def split: sum.splits)
qed

lemma fresh_add_add_remove:
  "fresh_ids [AddClient client_a, AddClient client_b, RemoveClient ''a'']
     (new_SSEClientManager cfg_two, all_open)"
  by (simp add: addClient_def new_SSEClientManager_def cfg_two_def client_a_def client_b_def
      map_set_def map_get_def Let_def)

theorem indexes_exact_run_witness:
  "fresh_ids [AddClient client_a, AddClient client_b, RemoveClient ''a'']
     (new_SSEClientManager cfg_two, all_open)
   \<and> indexes_exact
       \<lparr> clients = [(''b'', client_b)],
         userClientMap = [(''u1'', [''b''])],
         sessionClientMap = [],
         metrics = \<lparr> totalConnections = 2, eventsDispatched = 0, errors = 0 \<rparr>,
         config = cfg_two \<rparr>"
proof -
  from indexes_exact_run [OF fresh_add_add_remove, of 3]
  have "indexes_exact
       \<lparr> clients = [(''b'', client_b)],
         userClientMap = [(''u1'', [''b''])],
         sessionClientMap = [],
         metrics = \<lparr> totalConnections = 2, eventsDispatched = 0, errors = 0 \<rparr>,
         config = cfg_two \<rparr>"
    by (simp add: run_add_add_remove)
  then show ?thesis
    using fresh_add_add_remove by blast
qed

subsection \<open>The registry: eviction of stale handles\<close>

lemma fold_collect_stale:
  "fold (\<lambda>(cid, c) stale. let t = f c in if P t then stale @ [cid] else stale) cl acc
     = acc @ map fst (filter (\<lambda>entry. P (f (snd entry))) cl)"
  by (induction cl arbitrary: acc) (auto simp: Let_def)

lemma map_delete_filter: "map_delete al k = filter (\<lambda>entry. fst entry \<noteq> k) al"
  by (auto simp: map_delete_def AList.delete_eq intro: filter_cong)

lemma remove_each_Cons:
  "remove_each (cid # ids) s = remove_each ids (snd (removeClient cid s))"
  by (simp add: remove_each_def)

lemma remove_each_clients:
  "clients (fst (remove_each ids s)) = filter (\<lambda>entry. fst entry \<notin> set ids) (clients (fst s))"
proof (induction ids arbitrary: s)
  case Nil
  then show ?case by (simp add: remove_each_def)
next
  case (Cons cid ids)
  obtain m \<sigma> where s: "s = (m, \<sigma>)" by (cases s)
  have "clients (fst (snd (removeClient cid s))) = filter (\<lambda>entry. fst entry \<noteq> cid) (clients (fst s))"
    using removeClient_clients [of cid m \<sigma>] s by (simp add: map_delete_filter)
  then show ?case
    using Cons.IH [of "snd (removeClient cid s)"]
    by (auto simp: remove_each_Cons intro: filter_cong)
qed

lemma removeClient_metrics_config:
  "metrics (fst (snd (removeClient cid (m, \<sigma>)))) = metrics m
   \<and> config (fst (snd (removeClient cid (m, \<sigma>)))) = config m"
proof (cases "map_get (clients m) cid")
  case None
  then show ?thesis by (simp add: removeClient_absent)
next
  case (Some c)
  then show ?thesis by (simp add: removeClient_fields)
qed

lemma remove_each_metrics_config:
  "metrics (fst (remove_each ids s)) = metrics (fst s)
   \<and> config (fst (remove_each ids s)) = config (fst s)"
proof (induction ids arbitrary: s)
  case Nil
  then show ?case by (simp add: remove_each_def)
next
  case (Cons cid ids)
  obtain m \<sigma> where s: "s = (m, \<sigma>)" by (cases s)
  show ?case
    using Cons.IH [of "snd (removeClient cid s)"] removeClient_metrics_config [of cid m \<sigma>] s
    by (simp add: remove_each_Cons)
qed

lemma remove_each_registry_inv:
  "registry_inv (fst s) \<Longrightarrow> registry_inv (fst (remove_each ids s))"
proof (induction ids arbitrary: s)
  case Nil
  then show ?case by (simp add: remove_each_def)
next
  case (Cons cid ids)
  obtain m \<sigma> where s: "s = (m, \<sigma>)" by (cases s)
  have "registry_inv (fst (snd (removeClient cid s)))"
    using Cons.prems s registry_inv_removeClient [of m cid \<sigma>] by simp
  then show ?case
    using Cons.IH by (simp add: remove_each_Cons)
qed

lemma stale_ids:
  "fold (\<lambda>(clientId, client) stale.
            let timeSinceLastPing =
                  (case client_lastPing client of
                     Some lastPing \<Rightarrow> now - lastPing
                   | None \<Rightarrow> now - client_connectedAt client)
            in if timeSinceLastPing > limit then stale @ [clientId] else stale) cl []
     = map fst (filter (\<lambda>entry. idle_time now (snd entry) > limit) cl)"
proof -
  have idle: "idle_time now = (\<lambda>client. case client_lastPing client of
                     Some lastPing \<Rightarrow> now - lastPing
                   | None \<Rightarrow> now - client_connectedAt client)"
    by (auto simp: idle_time_def fun_eq_iff split: option.splits)
  show ?thesis
    unfolding idle
    using fold_collect_stale [of "\<lambda>client. case client_lastPing client of
                     Some lastPing \<Rightarrow> now - lastPing
                   | None \<Rightarrow> now - client_connectedAt client" "\<lambda>t. t > limit" cl "[]"]
    by simp
qed

lemma removeStaleClients_eq:
  "removeStaleClients now s
     = (int (length (filter (\<lambda>entry. idle_time now (snd entry) > clientTimeoutMs (config (fst s)))
                       (clients (fst s)))),
        remove_each (map fst (filter (\<lambda>entry. idle_time now (snd entry)
                                          > clientTimeoutMs (config (fst s))) (clients (fst s)))) s)"
  unfolding removeStaleClients_def stale_ids by (simp add: Let_def)

lemma filter_not_in_filtered_keys:
  assumes "distinct (map fst al)"
  shows "filter (\<lambda>entry. fst entry \<notin> set (map fst (filter P al))) al = filter (\<lambda>entry. \<not> P entry) al"
proof (rule filter_cong [OF refl])
  fix entry assume mem: "entry \<in> set al"
  have "fst entry \<in> fst ` {e \<in> set al. P e} \<longleftrightarrow> P entry"
  proof
    assume "fst entry \<in> fst ` {e \<in> set al. P e}"
    then obtain e where e: "e \<in> set al" "P e" "fst e = fst entry" by auto
    then have "e = entry"
      using assms mem by (metis eq_key_imp_eq_value prod.collapse)
    with e show "P entry" by simp
  next
    assume "P entry"
    with mem show "fst entry \<in> fst ` {e \<in> set al. P e}" by auto
  qed
  then show "(fst entry \<notin> set (map fst (filter P al))) = (\<not> P entry)" by simp
qed

text \<open>
  Claim C5. In every registry state (the keys of a Map are distinct),
  \<open>removeStaleClients\<close> at the time \<open>now\<close> keeps exactly the handles whose idle time
  (\<open>now - lastPing\<close> when \<open>lastPing\<close> is set, \<open>now - connectedAt\<close> otherwise) does not
  exceed \<open>clientTimeoutMs\<close>, so a handle at exactly the timeout stays; it returns the
  number of handles whose idle time exceeds the timeout; the new state is the one that
  the calls of \<open>removeClient\<close> for these handles give, and its indexes are exact when
  the registry satisfied the representation invariant before the call.
\<close>

theorem removeStaleClients_exact:
  assumes d: "distinct (map fst (clients m))"
  shows "clients (fst (snd (removeStaleClients now (m, \<sigma>))))
           = filter (\<lambda>entry. \<not> idle_time now (snd entry) > clientTimeoutMs (config m)) (clients m)
   \<and> fst (removeStaleClients now (m, \<sigma>))
       = int (length (filter (\<lambda>entry. idle_time now (snd entry) > clientTimeoutMs (config m))
                        (clients m)))
   \<and> snd (removeStaleClients now (m, \<sigma>))
       = fold (\<lambda>clientId s. snd (removeClient clientId s))
           (map fst (filter (\<lambda>entry. idle_time now (snd entry) > clientTimeoutMs (config m))
                       (clients m))) (m, \<sigma>)
   \<and> (registry_inv m \<longrightarrow> indexes_exact (fst (snd (removeStaleClients now (m, \<sigma>)))))"
proof -
  have "indexes_exact (fst (snd (removeStaleClients now (m, \<sigma>))))" if inv: "registry_inv m"
  proof -
    have "registry_inv (fst (snd (removeStaleClients now (m, \<sigma>))))"
      using inv by (simp add: removeStaleClients_eq remove_each_registry_inv)
    then show ?thesis by (rule registry_inv_exact)
  qed
  moreover have "clients (fst (snd (removeStaleClients now (m, \<sigma>))))
           = filter (\<lambda>entry. \<not> idle_time now (snd entry) > clientTimeoutMs (config m)) (clients m)"
    by (simp only: removeStaleClients_eq snd_conv fst_conv remove_each_clients
        filter_not_in_filtered_keys [OF d])
  moreover have "snd (removeStaleClients now (m, \<sigma>))
       = fold (\<lambda>clientId s. snd (removeClient clientId s))
           (map fst (filter (\<lambda>entry. idle_time now (snd entry) > clientTimeoutMs (config m))
                       (clients m))) (m, \<sigma>)"
    by (simp add: removeStaleClients_eq remove_each_def)
  moreover have "fst (removeStaleClients now (m, \<sigma>))
       = int (length (filter (\<lambda>entry. idle_time now (snd entry) > clientTimeoutMs (config m))
                        (clients m)))"
    by (simp add: removeStaleClients_eq)
  ultimately show ?thesis by blast
qed

lemma registry_inv_manager_ab: "registry_inv manager_ab"
proof -
  have fresh: "fresh_ids [AddClient client_a, AddClient client_b]
                 (new_SSEClientManager cfg_two, all_open)"
    by (simp add: addClient_def new_SSEClientManager_def cfg_two_def client_a_def client_b_def
        map_set_def map_get_def Let_def)
  have "registry_inv (fst (run [AddClient client_a, AddClient client_b]
                             (new_SSEClientManager cfg_two, all_open)))"
    by (rule registry_inv_run [OF _ fresh]) (simp add: registry_inv_new)
  then show ?thesis
    by (simp only: manager_ab_run fst_conv)
qed

theorem removeStaleClients_exact_witness:
  "distinct (map fst (clients manager_ab))
   \<and> registry_inv manager_ab
   \<and> idle_time 181000 client_a = 180000
   \<and> idle_time 181000 client_b = clientTimeoutMs (config manager_ab)
   \<and> fst (removeStaleClients 181000 (manager_ab, all_open)) = 1
   \<and> clients (fst (snd (removeStaleClients 181000 (manager_ab, all_open)))) = [(''b'', client_b)]
   \<and> indexes_exact (fst (snd (removeStaleClients 181000 (manager_ab, all_open))))"
proof -
  have idle: "idle_time 181000 client_a = 180000" "idle_time 181000 client_b = 120000"
    by (simp_all add: idle_time_def client_a_def client_b_def)
  have m: "clients manager_ab = [(''a'', client_a), (''b'', client_b)]"
      "clientTimeoutMs (config manager_ab) = 120000"
    by (simp_all add: manager_ab_def cfg_two_def)
  have d: "distinct (map fst (clients manager_ab))"
    by (simp add: m)
  note exact = removeStaleClients_exact [OF d, of 181000 all_open]
  have kept: "clients (fst (snd (removeStaleClients 181000 (manager_ab, all_open))))
                = [(''b'', client_b)]"
    using exact [THEN conjunct1] by (simp add: idle m)
  have evicted: "fst (removeStaleClients 181000 (manager_ab, all_open)) = 1"
    using exact [THEN conjunct2, THEN conjunct1] by (simp add: idle m)
  have idx: "indexes_exact (fst (snd (removeStaleClients 181000 (manager_ab, all_open))))"
    using exact [THEN conjunct2, THEN conjunct2, THEN conjunct2] registry_inv_manager_ab
    by blast
  show ?thesis
    using registry_inv_manager_ab d idle m kept evicted idx by simp
qed

subsection \<open>The service: reset\<close>

lemma cleanup_clients: "clients (fst (cleanup s)) = []"
proof -
  have "filter (\<lambda>entry. fst entry \<notin> set (map fst al)) al = []" for al :: "(string \<times> SSEClient) list"
    by (induction al) auto
  then show ?thesis
    by (simp only: cleanup_def Let_def remove_each_clients)
qed

lemma cleanup_metrics_config:
  "metrics (fst (cleanup s)) = metrics (fst s) \<and> config (fst (cleanup s)) = config (fst s)"
  by (simp only: cleanup_def Let_def remove_each_metrics_config)

lemma cleanup_registry_inv: "registry_inv (fst s) \<Longrightarrow> registry_inv (fst (cleanup s))"
  by (simp only: cleanup_def Let_def remove_each_registry_inv)

lemma index_inv_empty:
  assumes inv: "index_inv field idx []"
  shows "idx = []"
proof (cases idx)
  case Nil
  then show ?thesis .
next
  case (Cons entry rest)
  obtain k s where e: "entry = (k, s)" by (cases entry)
  have look: "map_of idx k = Some s" using Cons e by simp
  have "members_of idx k = {}"
    using index_inv_members [OF inv, of k] by simp
  then have "s = []" using look by (simp add: members_of_def)
  then show ?thesis using index_inv_no_empty [OF inv, of k] look by simp
qed

lemma reset_clientManager:
  "clientManager (fst (reset (svc, \<sigma>, ts))) = fst (cleanup (clientManager svc, \<sigma>))"
  by (simp add: reset_def startHeartbeat_def startCleanup_def split_beta Let_def)

lemma reset_svc_config: "svc_config (fst (reset (svc, \<sigma>, ts))) = svc_config svc"
  by (simp add: reset_def startHeartbeat_def startCleanup_def split_beta Let_def)

lemma reset_metrics:
  "metrics (clientManager (fst (reset (svc, \<sigma>, ts)))) = metrics (clientManager svc)"
  using cleanup_metrics_config [of "(clientManager svc, \<sigma>)"]
  by (simp add: reset_def startHeartbeat_def startCleanup_def split_beta Let_def)

lemma new_SSEService_two:
  "new_SSEService cfg_two []
     = (\<lparr> clientManager = new_SSEClientManager cfg_two, svc_heartbeatInterval = Some 1,
           svc_cleanupInterval = Some 2, svc_config = cfg_two \<rparr>, timers_ab)"
  by (simp add: new_SSEService_def startHeartbeat_def startCleanup_def setInterval_def
      timers_ab_def cfg_two_def Let_def)

text \<open>
  Claim C1, amended. After \<open>reset\<close> the primary map of the registry is empty, and so
  are both indexes when the registry satisfied the representation invariant before the
  call. The counters \<open>totalConnections\<close>, \<open>eventsDispatched\<close> and \<open>errors\<close> have the values
  they had before the call: no code path sets them back to zero. The configuration is
  kept.
\<close>

theorem reset_keeps_counters:
  "clients (clientManager (fst (reset (svc, \<sigma>, ts)))) = []
   \<and> (registry_inv (clientManager svc) \<longrightarrow>
        userClientMap (clientManager (fst (reset (svc, \<sigma>, ts)))) = []
        \<and> sessionClientMap (clientManager (fst (reset (svc, \<sigma>, ts)))) = [])
   \<and> metrics (clientManager (fst (reset (svc, \<sigma>, ts)))) = metrics (clientManager svc)
   \<and> totalConnections (metrics (clientManager (fst (reset (svc, \<sigma>, ts)))))
       = totalConnections (metrics (clientManager svc))
   \<and> eventsDispatched (metrics (clientManager (fst (reset (svc, \<sigma>, ts)))))
       = eventsDispatched (metrics (clientManager svc))
   \<and> errors (metrics (clientManager (fst (reset (svc, \<sigma>, ts)))))
       = errors (metrics (clientManager svc))
   \<and> config (clientManager (fst (reset (svc, \<sigma>, ts)))) = config (clientManager svc)
   \<and> svc_config (fst (reset (svc, \<sigma>, ts))) = svc_config svc"
proof -
  define m' where "m' = fst (cleanup (clientManager svc, \<sigma>))"
  have r: "clientManager (fst (reset (svc, \<sigma>, ts))) = m'"
    unfolding m'_def by (rule reset_clientManager)
  have empty: "clients m' = []"
    unfolding m'_def by (rule cleanup_clients)
  have same: "metrics m' = metrics (clientManager svc)" "config m' = config (clientManager svc)"
    unfolding m'_def using cleanup_metrics_config [of "(clientManager svc, \<sigma>)"] by simp_all
  have idx: "userClientMap m' = [] \<and> sessionClientMap m' = []" if "registry_inv (clientManager svc)"
  proof -
    have "registry_inv m'"
      unfolding m'_def using that cleanup_registry_inv [of "(clientManager svc, \<sigma>)"] by simp
    then show ?thesis
      using empty by (auto simp: registry_inv_def dest: index_inv_empty)
  qed
  show ?thesis
    unfolding r using empty same idx reset_svc_config [of svc \<sigma> ts] by simp
qed

text \<open>
  Claim C1 as stated, that the three counters are zero after \<open>reset\<close>, fails for the
  service that has registered two handles: \<open>totalConnections\<close> is 2 before and after.
\<close>

theorem reset_keeps_counters_counterexample:
  "\<not> (totalConnections (metrics (clientManager (fst (reset (service_ab, all_open, timers_ab))))) = 0
      \<and> eventsDispatched (metrics (clientManager (fst (reset (service_ab, all_open, timers_ab))))) = 0
      \<and> errors (metrics (clientManager (fst (reset (service_ab, all_open, timers_ab))))) = 0)"
  by (simp add: reset_metrics service_ab_def manager_ab_def)

theorem reset_keeps_counters_witness:
  "registry_inv (clientManager service_ab)
   \<and> clients (clientManager (fst (reset (service_ab, all_open, timers_ab)))) = []
   \<and> userClientMap (clientManager (fst (reset (service_ab, all_open, timers_ab)))) = []
   \<and> sessionClientMap (clientManager (fst (reset (service_ab, all_open, timers_ab)))) = []
   \<and> totalConnections (metrics (clientManager (fst (reset (service_ab, all_open, timers_ab))))) = 2"
proof -
  have inv: "registry_inv (clientManager service_ab)"
    using registry_inv_manager_ab by (simp add: service_ab_def)
  have total: "totalConnections (metrics (clientManager service_ab)) = 2"
    by (simp add: service_ab_def manager_ab_def)
  show ?thesis
    using reset_keeps_counters [of service_ab all_open timers_ab] inv total by simp
qed

end
